theory Spec2Isabelle
  imports Main "HOL-Library.Word"
begin

unbundle bit_operations_syntax

section \<open>Machine types\<close>

type_synonym u8 = "8 word"
type_synonym u16 = "16 word"
type_synonym u32 = "32 word"
type_synonym bytes = "u8 list"

section \<open>Sessions and chunk streams\<close>

text \<open>
  \<^verbatim>\<open>type chunkStream struct\<close>: the reassembly state of one chunk stream id.
  \<open>msgdata\<close> is the buffer \<open>Start\<close> allocates; Go's \<open>nil\<close> slice is the empty list.
\<close>

record chunkStream =
  timenow :: u32
  timedelta :: u32
  hastimeext :: bool
  msgsid :: u32
  msgtypeid :: u8
  msgdatalen :: u32
  msgdataleft :: u32
  msghdrtype :: u8
  msgdata :: bytes

text \<open>\<^verbatim>\<open>&chunkStream{}\<close>: every field at its zero value.\<close>

definition zero_chunkStream :: chunkStream where
  "zero_chunkStream =
     \<lparr>timenow = 0, timedelta = 0, hastimeext = False, msgsid = 0, msgtypeid = 0,
      msgdatalen = 0, msgdataleft = 0, msghdrtype = 0, msgdata = []\<rparr>"

text \<open>
  \<^verbatim>\<open>type Session struct\<close>, the fields the registry and \<open>readChunk\<close> use.
  \<open>bufr\<close> is the buffered reader over the connection: the bytes the peer has sent and
  the session has not read yet. \<open>readcsmap\<close> maps a chunk stream id to its state; a
  missing key reads as Go's \<open>nil\<close>. Go's \<open>int\<close> is modelled by \<open>int\<close>: the values
  compared and added below stay under \<open>2^33\<close>. Every other field of the struct is in
  the record's extension.
\<close>

record Session =
  StreamAnchor :: string
  ackn :: u32
  readAckSize :: u32
  readcsmap :: "u32 \<rightharpoonup> chunkStream"
  readMaxChunkSize :: int
  bufr :: bytes

text \<open>
  \<^verbatim>\<open>func NewSesion(netconn net.Conn) *Session\<close>: the fields above as it sets them
  (or leaves them zero); \<open>inp\<close> is what the connection will deliver.
\<close>

definition NewSesion :: "bytes \<Rightarrow> 'z \<Rightarrow> 'z Session_scheme" where
  "NewSesion inp z =
     \<lparr>StreamAnchor = [], ackn = 0, readAckSize = 0, readcsmap = Map.empty,
      readMaxChunkSize = 128, bufr = inp, \<dots> = z\<rparr>"

section \<open>The publisher registry\<close>

text \<open>
  \<^verbatim>\<open>var PublishingSessionMap [HashMapFactors]sessionIndexStruct\<close>: a fixed array of
  101 maps from anchor strings to sessions, each behind its own reader-writer lock.
  Every operation below holds the lock of the one shard it touches from its first access
  to its return, so an operation is one atomic step on the array and the model passes
  the array in and out. The array is a list of \<open>HashMapFactors\<close> maps (the theorems
  assume this length, which the operations keep). A session is a pointer in the source;
  the registry reads only its \<open>StreamAnchor\<close>, and the model stores the session's
  value.
\<close>

definition HashMapFactors :: nat where
  "HashMapFactors = 101"

type_synonym 'z sessionIndex = "string \<rightharpoonup> 'z Session_scheme"
type_synonym 'z registry = "'z sessionIndex list"

text \<open>\<^verbatim>\<open>func init()\<close>: every shard gets an empty map.\<close>

definition init_registry :: "'z registry" where
  "init_registry = replicate HashMapFactors Map.empty"

text \<open>
  \<^verbatim>\<open>hash\<close> is \<^verbatim>\<open>fnv.New32a()\<close>, \<^verbatim>\<open>Write\<close>, \<^verbatim>\<open>Sum32\<close> of Go's standard library
  (hash/fnv): starting from the offset basis 2166136261, each byte is xor-ed into the
  32-bit state, which is then multiplied by the prime 16777619 (modulo \<open>2^32\<close>).
  A Go string is a byte sequence, as a HOL \<open>string\<close> is.
\<close>

definition offset32 :: u32 where
  "offset32 = 2166136261"

definition prime32 :: u32 where
  "prime32 = 16777619"

definition sum32a_step :: "u32 \<Rightarrow> char \<Rightarrow> u32" where
  "sum32a_step h c = (h XOR of_char c) * prime32"

definition hash :: "string \<Rightarrow> u32" where
  "hash s = foldl sum32a_step offset32 s"

text \<open>\<^verbatim>\<open>i := hash(path) % HashMapFactors\<close>, an unsigned 32-bit remainder.\<close>

definition shard :: "string \<Rightarrow> nat" where
  "shard path = unat (hash path mod 101)"

definition RtmpSessionGet :: "'z registry \<Rightarrow> string \<Rightarrow> 'z Session_scheme option" where
  "RtmpSessionGet PublishingSessionMap path =
     (let i = shard path in
      case (PublishingSessionMap ! i) path of
        Some pubSession \<Rightarrow> Some pubSession
      | None \<Rightarrow> None)"

definition RtmpSessionPush :: "'z registry \<Rightarrow> 'z Session_scheme \<Rightarrow> bool \<times> 'z registry" where
  "RtmpSessionPush PublishingSessionMap session =
     (let path = StreamAnchor session;
          i = shard path in
      case (PublishingSessionMap ! i) path of
        Some _ \<Rightarrow> (False, PublishingSessionMap)
      | None \<Rightarrow> (True, PublishingSessionMap[i := (PublishingSessionMap ! i)(path \<mapsto> session)]))"

definition RtmpSessionDel :: "'z registry \<Rightarrow> 'z Session_scheme \<Rightarrow> 'z registry" where
  "RtmpSessionDel PublishingSessionMap session =
     (let path = StreamAnchor session;
          i = shard path in
      PublishingSessionMap[i := (PublishingSessionMap ! i)(path := None)])"


text \<open>
  A history of registry operations, run with the functions above. \<open>abstract_step\<close>
  is the registry of the specification: one flat map from anchors to publishers with
  \<open>insertIfAbsent\<close> and \<open>remove\<close>.
\<close>

datatype 'z regop = Push "'z Session_scheme" | Del "'z Session_scheme"

fun run_op :: "'z registry \<Rightarrow> 'z regop \<Rightarrow> 'z registry" where
  "run_op reg (Push s) = snd (RtmpSessionPush reg s)"
| "run_op reg (Del s) = RtmpSessionDel reg s"

definition run_ops :: "'z regop list \<Rightarrow> 'z registry \<Rightarrow> 'z registry" where
  "run_ops ops reg = foldl run_op reg ops"

fun removes :: "string \<Rightarrow> 'z regop \<Rightarrow> bool" where
  "removes a (Push s) = False"
| "removes a (Del s) = (StreamAnchor s = a)"

fun abstract_step :: "'z sessionIndex \<Rightarrow> 'z regop \<Rightarrow> 'z sessionIndex" where
  "abstract_step m (Push s) =
     (if m (StreamAnchor s) = None then m(StreamAnchor s \<mapsto> s) else m)"
| "abstract_step m (Del s) = m(StreamAnchor s := None)"

definition flat :: "'z registry \<Rightarrow> 'z sessionIndex" where
  "flat reg = (\<lambda>a. (reg ! shard a) a)"

section \<open>The chunk reader\<close>

text \<open>
  What \<open>readChunk\<close> can return as its error, and the run-time panic of a slice
  expression out of range, which ends the call as an error does.
\<close>

datatype error =
    EOF
  | ErrUnexpectedEOF
  | ErrMsgDataLeft u32
  | ErrHdrType u8
  | PanicSliceBounds
  | ErrHandler string
  | ErrWrite string

text \<open>
  The big-endian and little-endian readers of the \<open>pio\<close> package. Each is called on
  a slice that \<open>io.ReadFull\<close> has just filled, so the bytes it indexes exist.
\<close>

definition U16BE :: "bytes \<Rightarrow> u16" where
  "U16BE b = push_bit 8 (ucast (b ! 0)) OR ucast (b ! 1)"

definition U24BE :: "bytes \<Rightarrow> u32" where
  "U24BE b = push_bit 16 (ucast (b ! 0)) OR push_bit 8 (ucast (b ! 1)) OR ucast (b ! 2)"

definition U32BE :: "bytes \<Rightarrow> u32" where
  "U32BE b = push_bit 24 (ucast (b ! 0)) OR push_bit 16 (ucast (b ! 1))
     OR push_bit 8 (ucast (b ! 2)) OR ucast (b ! 3)"

definition U32LE :: "bytes \<Rightarrow> u32" where
  "U32LE b = ucast (b ! 0) OR push_bit 8 (ucast (b ! 1))
     OR push_bit 16 (ucast (b ! 2)) OR push_bit 24 (ucast (b ! 3))"

text \<open>The slice expression \<^verbatim>\<open>b[lo:hi]\<close> for \<open>lo \<le> hi \<le> len(b)\<close>.\<close>

definition subslice :: "nat \<Rightarrow> nat \<Rightarrow> bytes \<Rightarrow> bytes" where
  "subslice lo hi b = take (hi - lo) (drop lo b)"

text \<open>
  \<^verbatim>\<open>io.ReadFull(self.bufr, buf)\<close> with \<open>len(buf) = k\<close> on the unread input \<open>inp\<close>:
  the error, the bytes put into \<open>buf\<close>, and the input left. The connection is
  modelled by the finite sequence of bytes it delivers, so the only read errors are
  \<open>io.EOF\<close> (nothing could be read) and \<open>io.ErrUnexpectedEOF\<close> (the input ended inside
  the buffer); a read of length 0 succeeds on any input.
\<close>

definition ReadFull :: "nat \<Rightarrow> bytes \<Rightarrow> error option \<times> bytes \<times> bytes" where
  "ReadFull k inp =
     (if k \<le> length inp then (None, take k inp, drop k inp)
      else if inp = [] then (Some EOF, [], [])
      else (Some ErrUnexpectedEOF, inp, []))"

text \<open>\<^verbatim>\<open>func (self *chunkStream) Start()\<close>\<close>

definition Start :: "chunkStream \<Rightarrow> chunkStream" where
  "Start cs = cs\<lparr>msgdataleft := msgdatalen cs,
                 msgdata := replicate (unat (msgdatalen cs)) 0\<rparr>"

text \<open>The package variable \<open>EXTTIME\<close>, which the sources set to true and never assign.\<close>

definition EXTTIME :: bool where
  "EXTTIME = True"

text \<open>
  \<open>readChunk\<close>, lines 305 to 333: the basic header. The result is the format type,
  the chunk stream id and the count \<open>n\<close> of bytes read so far, with the input left.
\<close>

definition readBasicHeader :: "bytes \<Rightarrow> (error + u8 \<times> u32 \<times> int) \<times> bytes" where
  "readBasicHeader inp =
     (case ReadFull 1 inp of
        (Some err, b, inp) \<Rightarrow> (Inl err, inp)
      | (None, b, inp) \<Rightarrow>
          (let header = b ! 0;
               n = 1;
               fmtTpye = drop_bit 6 header;
               csid = ucast header AND 0x3f
           in if csid = 0 then
                (case ReadFull 1 inp of
                   (Some err, b, inp) \<Rightarrow> (Inl err, inp)
                 | (None, b, inp) \<Rightarrow> (Inr (fmtTpye, ucast (b ! 0) + 64, n + 1), inp))
              else if csid = 1 then
                (case ReadFull 2 inp of
                   (Some err, b, inp) \<Rightarrow> (Inl err, inp)
                 | (None, b, inp) \<Rightarrow> (Inr (fmtTpye, ucast (U16BE b) + 64, n + 2), inp))
              else (Inr (fmtTpye, csid, n), inp)))"

text \<open>
  The block that cases 0, 1 and 2 of the message header each repeat: when the 24-bit
  field is \<open>0xffffff\<close>, four more bytes hold the timestamp.
\<close>

definition readTimeExt ::
  "u32 \<Rightarrow> int \<Rightarrow> chunkStream \<Rightarrow> bytes \<Rightarrow> (error + u32 \<times> int) \<times> chunkStream \<times> bytes" where
  "readTimeExt timestamp n cs inp =
     (if timestamp = 0xffffff then
        (case ReadFull 4 inp of
           (Some err, b, inp) \<Rightarrow> (Inl err, cs, inp)
         | (None, b, inp) \<Rightarrow> (Inr (U32BE b, n + 4), cs\<lparr>hastimeext := True\<rparr>, inp))
      else (Inr (timestamp, n), cs\<lparr>hastimeext := False\<rparr>, inp))"

text \<open>
  \<open>readChunk\<close>, lines 341 to 484: the message header by format type. \<open>cs\<close> is the
  chunk stream the pointer refers to; it is returned as the code has left it, also
  when the call ends in an error.
\<close>

definition readMsgHeader ::
  "u8 \<Rightarrow> int \<Rightarrow> chunkStream \<Rightarrow> bytes \<Rightarrow> (error + int) \<times> chunkStream \<times> bytes" where
  "readMsgHeader fmtTpye n cs inp =
     (if fmtTpye = 0 then
        (if msgdataleft cs \<noteq> 0 then (Inl (ErrMsgDataLeft (msgdataleft cs)), cs, inp)
         else case ReadFull 11 inp of
           (Some err, h, inp) \<Rightarrow> (Inl err, cs, inp)
         | (None, h, inp) \<Rightarrow>
             (let n = n + 11;
                  timestamp = U24BE (subslice 0 3 h);
                  cs = cs\<lparr>msghdrtype := fmtTpye, msgdatalen := U24BE (subslice 3 6 h),
                          msgtypeid := h ! 6, msgsid := U32LE (subslice 7 11 h)\<rparr>
              in case readTimeExt timestamp n cs inp of
                   (Inl err, cs, inp) \<Rightarrow> (Inl err, cs, inp)
                 | (Inr (timestamp, n), cs, inp) \<Rightarrow>
                     (Inr n, Start (cs\<lparr>timenow := timestamp\<rparr>), inp)))
      else if fmtTpye = 1 then
        (if msgdataleft cs \<noteq> 0 then (Inl (ErrMsgDataLeft (msgdataleft cs)), cs, inp)
         else case ReadFull 7 inp of
           (Some err, h, inp) \<Rightarrow> (Inl err, cs, inp)
         | (None, h, inp) \<Rightarrow>
             (let n = n + 7;
                  timestamp = U24BE (subslice 0 3 h);
                  cs = cs\<lparr>msghdrtype := fmtTpye, msgdatalen := U24BE (subslice 3 6 h),
                          msgtypeid := h ! 6\<rparr>
              in case readTimeExt timestamp n cs inp of
                   (Inl err, cs, inp) \<Rightarrow> (Inl err, cs, inp)
                 | (Inr (timestamp, n), cs, inp) \<Rightarrow>
                     (Inr n, Start (cs\<lparr>timedelta := timestamp,
                                       timenow := timenow cs + timestamp\<rparr>), inp)))
      else if fmtTpye = 2 then
        (if msgdataleft cs \<noteq> 0 then (Inl (ErrMsgDataLeft (msgdataleft cs)), cs, inp)
         else case ReadFull 3 inp of
           (Some err, h, inp) \<Rightarrow> (Inl err, cs, inp)
         | (None, h, inp) \<Rightarrow>
             (let n = n + 3;
                  cs = cs\<lparr>msghdrtype := fmtTpye\<rparr>;
                  timestamp = U24BE (subslice 0 3 h)
              in case readTimeExt timestamp n cs inp of
                   (Inl err, cs, inp) \<Rightarrow> (Inl err, cs, inp)
                 | (Inr (timestamp, n), cs, inp) \<Rightarrow>
                     (Inr n, Start (cs\<lparr>timedelta := timestamp,
                                       timenow := timenow cs + timestamp\<rparr>), inp)))
      else if fmtTpye = 3 then
        (case
           (if hastimeext cs \<and> EXTTIME = True then
              (if msghdrtype cs = 0 then
                 (case ReadFull 4 inp of
                    (Some err, b, inp) \<Rightarrow> (Inl err, cs, inp)
                  | (None, b, inp) \<Rightarrow> (Inr (n + 4), cs\<lparr>timenow := U32BE b\<rparr>, inp))
               else if msghdrtype cs = 1 \<or> msghdrtype cs = 2 then
                 (case ReadFull 4 inp of
                    (Some err, b, inp) \<Rightarrow> (Inl err, cs, inp)
                  | (None, b, inp) \<Rightarrow>
                      (Inr (n + 4), cs\<lparr>timenow := timenow cs + U32BE b\<rparr>, inp))
               else (Inr n, cs, inp))
            else
              (if msghdrtype cs = 1 \<or> msghdrtype cs = 2
               then (Inr n, cs\<lparr>timenow := timenow cs + timedelta cs\<rparr>, inp)
               else (Inr n, cs, inp)))
         of (Inl err, cs, inp) \<Rightarrow> (Inl err, cs, inp)
          | (Inr n, cs, inp) \<Rightarrow>
              (Inr n, if msgdataleft cs = 0 then Start cs else cs, inp))
      else (Inl (ErrHdrType fmtTpye), cs, inp))"

text \<open>
  \<open>readChunk\<close>, lines 486 to 498: the payload of the chunk. \<open>size\<close> and the upper
  bound of the slice are Go \<open>int\<close>s, \<open>off\<close> is a \<open>uint32\<close>. The slice expression
  \<^verbatim>\<open>cs.msgdata[off : int(off)+size]\<close> panics unless
  \<open>off \<le> int(off)+size \<le> cap(cs.msgdata)\<close>, and the capacity of the buffer \<open>Start\<close> makes is
  its length. \<open>io.ReadFull\<close> writes what it reads into that window of \<open>msgdata\<close>, also
  when the input ends early.
\<close>

definition readPayload ::
  "int \<Rightarrow> int \<Rightarrow> chunkStream \<Rightarrow> bytes \<Rightarrow> (error + int) \<times> chunkStream \<times> bytes" where
  "readPayload readMaxChunkSize' n cs inp =
     (let size = int (unat (msgdataleft cs));
          size = (if size > readMaxChunkSize' then readMaxChunkSize' else size);
          off = msgdatalen cs - msgdataleft cs;
          lo = unat off;
          hi = int (unat off) + size
      in if \<not> (int lo \<le> hi \<and> hi \<le> int (length (msgdata cs))) then (Inl PanicSliceBounds, cs, inp)
         else case ReadFull (nat size) inp of
           (Some err, buf, inp) \<Rightarrow>
             (Inl err,
              cs\<lparr>msgdata := take lo (msgdata cs) @ buf @ drop (lo + length buf) (msgdata cs)\<rparr>,
              inp)
         | (None, buf, inp) \<Rightarrow>
             (Inr (n + int (length buf)),
              cs\<lparr>msgdata := take lo (msgdata cs) @ buf @ drop (lo + length buf) (msgdata cs),
                 msgdataleft := msgdataleft cs - word_of_int size\<rparr>,
              inp))"

text \<open>
  Lines 303 to 498 together: one chunk is read from the connection into the state of its
  chunk stream. The chunk stream is looked up in \<open>readcsmap\<close> and created when the map
  has none (lines 335 to 339); the pointer \<open>cs\<close> of the source is the entry of the map,
  so what the code has done to it is in the map when the call ends, in an error or not.
  The result is the chunk stream id, the count of bytes read and the chunk stream.
\<close>

definition decodeChunk ::
  "'z Session_scheme \<Rightarrow> (error + u32 \<times> int \<times> chunkStream) \<times> 'z Session_scheme" where
  "decodeChunk self =
     (case readBasicHeader (bufr self) of
        (Inl err, inp) \<Rightarrow> (Inl err, self\<lparr>bufr := inp\<rparr>)
      | (Inr (fmtTpye, csid, n), inp) \<Rightarrow>
          (let cs = (case readcsmap self csid of None \<Rightarrow> zero_chunkStream | Some cs \<Rightarrow> cs)
           in case readMsgHeader fmtTpye n cs inp of
                (Inl err, cs, inp) \<Rightarrow>
                  (Inl err, self\<lparr>readcsmap := (readcsmap self)(csid \<mapsto> cs), bufr := inp\<rparr>)
              | (Inr n, cs, inp) \<Rightarrow>
                  (case readPayload (readMaxChunkSize self) n cs inp of
                     (Inl err, cs, inp) \<Rightarrow>
                       (Inl err, self\<lparr>readcsmap := (readcsmap self)(csid \<mapsto> cs), bufr := inp\<rparr>)
                   | (Inr n, cs, inp) \<Rightarrow>
                       (Inr (csid, n, cs),
                        self\<lparr>readcsmap := (readcsmap self)(csid \<mapsto> cs), bufr := inp\<rparr>))))"

text \<open>
  The methods and the handler table \<open>readChunk\<close> calls are not in the sources under
  study, so they are parameters: \<open>ReadRegister\<close> changes the session;
  a handler and \<open>writeRtmpMsgAck\<close> change the session and may return an error (here its
  text). \<open>hands\<close> maps a message type id to its handler, or to \<open>nil\<close>.
  The calls \<open>readChunk\<close> makes are returned beside its result, in order, with their
  arguments.
\<close>

type_synonym 'z handler =
  "'z Session_scheme \<Rightarrow> u32 \<Rightarrow> u32 \<Rightarrow> u8 \<Rightarrow> bytes \<Rightarrow> string option \<times> 'z Session_scheme"

type_synonym 'z RtmpMsgHandle = "u8 \<Rightarrow> 'z handler option"

datatype call =
    CallReadRegister
  | CallHandler u32 u32 u8 bytes
  | CallWriteAck u32

text \<open>
  \<open>readChunk\<close>, lines 505 to 517: the message is complete and goes to its handler.
  The table entry and the arguments of the handler are read through the pointer \<open>cs\<close>
  after \<open>ReadRegister\<close> has run; the model takes them from the chunk stream as the
  decoding has left it, which is what the pointer refers to unless \<open>ReadRegister\<close>
  writes to the chunk streams.
\<close>

definition deliver ::
  "('z Session_scheme \<Rightarrow> 'z Session_scheme) \<Rightarrow> 'z RtmpMsgHandle \<Rightarrow> chunkStream \<Rightarrow>
   'z Session_scheme \<Rightarrow> error option \<times> 'z Session_scheme \<times> call list" where
  "deliver ReadRegister hands cs self =
     (if msgdataleft cs = 0 then
        (let self = ReadRegister self
         in case hands (msgtypeid cs) of
              None \<Rightarrow> (None, self, [CallReadRegister])
            | Some h \<Rightarrow>
                (case h self (timenow cs) (msgsid cs) (msgtypeid cs) (msgdata cs) of
                   (Some err, self) \<Rightarrow>
                     (Some (ErrHandler err), self,
                      [CallReadRegister,
                       CallHandler (timenow cs) (msgsid cs) (msgtypeid cs) (msgdata cs)])
                 | (None, self) \<Rightarrow>
                     (None, self,
                      [CallReadRegister,
                       CallHandler (timenow cs) (msgsid cs) (msgtypeid cs) (msgdata cs)])))
      else (None, self, []))"

text \<open>\<open>readChunk\<close>, lines 519 to 527: the acknowledgement window.\<close>

definition ackWindow ::
  "(u32 \<Rightarrow> 'z Session_scheme \<Rightarrow> string option \<times> 'z Session_scheme) \<Rightarrow> int \<Rightarrow>
   'z Session_scheme \<Rightarrow> error option \<times> 'z Session_scheme \<times> call list" where
  "ackWindow writeRtmpMsgAck n self =
     (let self = self\<lparr>ackn := ackn self + word_of_int n\<rparr>
      in if readAckSize self \<noteq> 0 \<and> ackn self > readAckSize self then
           (case writeRtmpMsgAck (ackn self) self of
              (Some err, self') \<Rightarrow> (Some (ErrWrite err), self', [CallWriteAck (ackn self)])
            | (None, self') \<Rightarrow> (None, self'\<lparr>ackn := 0\<rparr>, [CallWriteAck (ackn self)]))
         else (None, self, []))"

text \<open>\<^verbatim>\<open>func (self *Session) readChunk(hands RtmpMsgHandle) (err error)\<close>\<close>

definition readChunk ::
  "('z Session_scheme \<Rightarrow> 'z Session_scheme) \<Rightarrow>
   (u32 \<Rightarrow> 'z Session_scheme \<Rightarrow> string option \<times> 'z Session_scheme) \<Rightarrow>
   'z RtmpMsgHandle \<Rightarrow> 'z Session_scheme \<Rightarrow> error option \<times> 'z Session_scheme \<times> call list" where
  "readChunk ReadRegister writeRtmpMsgAck hands self =
     (case decodeChunk self of
        (Inl err, self) \<Rightarrow> (Some err, self, [])
      | (Inr (csid, n, cs), self) \<Rightarrow>
          (case deliver ReadRegister hands cs self of
             (Some err, self, calls) \<Rightarrow> (Some err, self, calls)
           | (None, self, calls) \<Rightarrow>
               (case ackWindow writeRtmpMsgAck n self of
                  (err, self, calls') \<Rightarrow> (err, self, calls @ calls'))))"

text \<open>
  The timestamp part of case 3 of the message header (lines 454 to 477), with
  \<open>EXTTIME\<close> at its value: a name for the proofs.
\<close>

definition readTime3 :: "int \<Rightarrow> chunkStream \<Rightarrow> bytes \<Rightarrow> (error + int) \<times> chunkStream \<times> bytes" where
  "readTime3 n cs inp =
     (if hastimeext cs then
        (if msghdrtype cs = 0 then
           (case ReadFull 4 inp of
              (Some err, b, inp) \<Rightarrow> (Inl err, cs, inp)
            | (None, b, inp) \<Rightarrow> (Inr (n + 4), cs\<lparr>timenow := U32BE b\<rparr>, inp))
         else if msghdrtype cs = 1 \<or> msghdrtype cs = 2 then
           (case ReadFull 4 inp of
              (Some err, b, inp) \<Rightarrow> (Inl err, cs, inp)
            | (None, b, inp) \<Rightarrow> (Inr (n + 4), cs\<lparr>timenow := timenow cs + U32BE b\<rparr>, inp))
         else (Inr n, cs, inp))
      else
        (if msghdrtype cs = 1 \<or> msghdrtype cs = 2
         then (Inr n, cs\<lparr>timenow := timenow cs + timedelta cs\<rparr>, inp)
         else (Inr n, cs, inp)))"


text \<open>
  The state of a chunk stream between two calls of \<open>readChunk\<close> that did not end in
  an error: the buffer has the length of the message, and what is left to read is part
  of it. \<open>Start\<close> establishes it, and a session starts with no chunk stream at all.
\<close>

definition cs_ok :: "chunkStream \<Rightarrow> bool" where
  "cs_ok cs = (length (msgdata cs) = unat (msgdatalen cs) \<and> msgdataleft cs \<le> msgdatalen cs)"

definition streams_ok :: "'z Session_scheme \<Rightarrow> bool" where
  "streams_ok self = (\<forall>csid cs. readcsmap self csid = Some cs \<longrightarrow> cs_ok cs)"


section \<open>The chunk header writer\<close>

text \<open>
  Writes into a caller's buffer. An index expression \<^verbatim>\<open>b[i] = v\<close> and the \<open>pio\<close>
  writers panic when the buffer is too short; the result is then \<open>None\<close>.
  \<^verbatim>\<open>pio.PutU24BE(b[n:], v)\<close> stores \<open>byte(v >> 16)\<close>, \<open>byte(v >> 8)\<close>, \<open>byte(v)\<close>
  at \<open>n\<close>, \<open>n + 1\<close>, \<open>n + 2\<close>, and so the others.
\<close>

text \<open>\<^verbatim>\<open>const chunkHeaderLength = 12 + 4\<close>, the length of \<open>chunkHeaderBuf\<close>.\<close>

definition chunkHeaderLength :: nat where
  "chunkHeaderLength = 12 + 4"

definition put8 :: "nat \<Rightarrow> u8 \<Rightarrow> bytes \<Rightarrow> bytes option" where
  "put8 i v b = (if i < length b then Some (b[i := v]) else None)"

definition PutU16BE :: "nat \<Rightarrow> u16 \<Rightarrow> bytes \<Rightarrow> bytes option" where
  "PutU16BE n v b =
     (if n + 1 < length b
      then Some (b[n := ucast (drop_bit 8 v), n + 1 := ucast v])
      else None)"

definition PutU24BE :: "nat \<Rightarrow> u32 \<Rightarrow> bytes \<Rightarrow> bytes option" where
  "PutU24BE n v b =
     (if n + 2 < length b
      then Some (b[n := ucast (drop_bit 16 v), n + 1 := ucast (drop_bit 8 v), n + 2 := ucast v])
      else None)"

definition PutU32BE :: "nat \<Rightarrow> u32 \<Rightarrow> bytes \<Rightarrow> bytes option" where
  "PutU32BE n v b =
     (if n + 3 < length b
      then Some (b[n := ucast (drop_bit 24 v), n + 1 := ucast (drop_bit 16 v),
                   n + 2 := ucast (drop_bit 8 v), n + 3 := ucast v])
      else None)"

definition PutU32LE :: "nat \<Rightarrow> u32 \<Rightarrow> bytes \<Rightarrow> bytes option" where
  "PutU32LE n v b =
     (if n + 3 < length b
      then Some (b[n := ucast v, n + 1 := ucast (drop_bit 8 v),
                   n + 2 := ucast (drop_bit 16 v), n + 3 := ucast (drop_bit 24 v)])
      else None)"

text \<open>
  \<^verbatim>\<open>func (self *Session) fillChunk3Header(b []byte, csid uint32, timestamp uint32) (n int)\<close>:
  the count \<open>n\<close> of bytes written and the buffer.
\<close>

definition fillChunk3Header :: "bytes \<Rightarrow> u32 \<Rightarrow> u32 \<Rightarrow> (nat \<times> bytes) option" where
  "fillChunk3Header b csid timestamp =
     (let n = 0 in
      Option.bind (put8 n ((ucast csid AND 0x3f) OR 0xC0) b) (\<lambda>b.
      let n = n + 1 in
      if timestamp \<ge> 0xffffff then
        Option.bind (PutU32BE n timestamp b) (\<lambda>b. Some (n + 4, b))
      else Some (n, b)))"

text \<open>
  \<^verbatim>\<open>func (self *Session) fillChunk0Header(b []byte, csid uint32, timestamp uint32,
  msgtypeid uint8, msgsid uint32, msgdatalen int) (n int)\<close>
\<close>

definition fillChunk0Header ::
  "bytes \<Rightarrow> u32 \<Rightarrow> u32 \<Rightarrow> u8 \<Rightarrow> u32 \<Rightarrow> int \<Rightarrow> (nat \<times> bytes) option" where
  "fillChunk0Header b csid timestamp msgtypeid' msgsid' msgdatalen' =
     (let n = 0 in
      Option.bind (put8 n (ucast csid AND 0x3f) b) (\<lambda>b.
      let n = n + 1 in
      Option.bind (if timestamp < 0xffffff then PutU24BE n timestamp b
                   else PutU24BE n 0xffffff b) (\<lambda>b.
      let n = n + 3 in
      Option.bind (PutU24BE n (word_of_int msgdatalen') b) (\<lambda>b.
      let n = n + 3 in
      Option.bind (put8 n msgtypeid' b) (\<lambda>b.
      let n = n + 1 in
      Option.bind (PutU32LE n msgsid' b) (\<lambda>b.
      let n = n + 4 in
      if timestamp \<ge> 0xffffff then
        Option.bind (PutU32BE n timestamp b) (\<lambda>b. Some (n + 4, b))
      else Some (n, b)))))))"

text \<open>
  The bytes of a type-0 and of a type-3 chunk header as the chunk format lays them out:
  basic header, 24-bit timestamp field, 24-bit length, type id, little-endian stream id,
  and the 32-bit extended timestamp when the timestamp does not fit the field. Names for
  the statements; the proofs show that the two writers put exactly these bytes.
\<close>

definition hdr0_bytes :: "u32 \<Rightarrow> u32 \<Rightarrow> u8 \<Rightarrow> u32 \<Rightarrow> int \<Rightarrow> bytes" where
  "hdr0_bytes csid timestamp tid sid len =
     [ucast csid AND 0x3f] @
     (if timestamp < 0xffffff
      then [ucast (drop_bit 16 timestamp), ucast (drop_bit 8 timestamp), ucast timestamp]
      else [0xff, 0xff, 0xff]) @
     [ucast (drop_bit 16 (word_of_int len :: u32)), ucast (drop_bit 8 (word_of_int len :: u32)),
      ucast (word_of_int len :: u32), tid,
      ucast sid, ucast (drop_bit 8 sid), ucast (drop_bit 16 sid), ucast (drop_bit 24 sid)] @
     (if timestamp \<ge> 0xffffff
      then [ucast (drop_bit 24 timestamp), ucast (drop_bit 16 timestamp),
            ucast (drop_bit 8 timestamp), ucast timestamp]
      else [])"

definition hdr3_bytes :: "u32 \<Rightarrow> u32 \<Rightarrow> bytes" where
  "hdr3_bytes csid timestamp =
     [(ucast csid AND 0x3f) OR 0xC0] @
     (if timestamp \<ge> 0xffffff
      then [ucast (drop_bit 24 timestamp), ucast (drop_bit 16 timestamp),
            ucast (drop_bit 8 timestamp), ucast timestamp]
      else [])"


section \<open>The decoder configuration record (h265Parse/parse.go)\<close>

text \<open>
  \<^verbatim>\<open>type AVCDecoderConfRecord struct\<close>. Lengths and the count \<open>n\<close> are Go \<open>int\<close>s
  that only grow by lengths of slices held in memory; they are modelled by \<open>nat\<close>.
\<close>

record AVCDecoderConfRecord =
  AVCProfileIndication :: u8
  ProfileCompatibility :: u32
  AVCLevelIndication :: u8
  LengthSizeMinusOne :: u8
  VPS :: "bytes list"
  SPS :: "bytes list"
  PPS :: "bytes list"

text \<open>\<^verbatim>\<open>func (self AVCDecoderConfRecord) Len() (n int)\<close>: the two loops are folds.\<close>

definition Len :: "AVCDecoderConfRecord \<Rightarrow> nat" where
  "Len self =
     (let n = 7;
          n = fold (\<lambda>sps n. n + (2 + length sps)) (SPS self) n;
          n = fold (\<lambda>pps n. n + (2 + length pps)) (PPS self) n
      in n)"

text \<open>
  \<^verbatim>\<open>copy(b[n:], src)\<close>: the slice expression panics when \<open>n > len(b)\<close>; \<open>copy\<close>
  itself copies as many bytes as fit and never panics.
\<close>

definition copy_at :: "nat \<Rightarrow> bytes \<Rightarrow> bytes \<Rightarrow> bytes option" where
  "copy_at n src b =
     (if n \<le> length b
      then Some (take n b @ take (length b - n) src @ drop (n + length src) b)
      else None)"

text \<open>
  The loop \<^verbatim>\<open>for _, sps := range self.SPS\<close> of \<open>Marshal\<close>, and the same loop over
  \<open>self.PPS\<close>: the length as a big-endian \<open>uint16\<close>, then the bytes.
\<close>

fun marshalNalus :: "bytes list \<Rightarrow> nat \<Rightarrow> bytes \<Rightarrow> (nat \<times> bytes) option" where
  "marshalNalus [] n b = Some (n, b)"
| "marshalNalus (nalu # nalus) n b =
     (case PutU16BE n (word_of_nat (length nalu)) b of
        None \<Rightarrow> None
      | Some b \<Rightarrow>
          (case copy_at (n + 2) nalu b of
             None \<Rightarrow> None
           | Some b \<Rightarrow> marshalNalus nalus (n + 2 + length nalu) b))"

text \<open>
  \<^verbatim>\<open>func (self AVCDecoderConfRecord) Marshal(b []byte) (n int)\<close>: the count returned
  and the buffer, or \<open>None\<close> for a panic on a buffer that is too short. After
  \<^verbatim>\<open>b[n] = self.AVCLevelIndication\<close> the source does not advance \<open>n\<close>.
\<close>

definition Marshal :: "AVCDecoderConfRecord \<Rightarrow> bytes \<Rightarrow> (nat \<times> bytes) option" where
  "Marshal self b =
     (let n = 0 in
      Option.bind (put8 n 1 b) (\<lambda>b.
      let n = n + 1 in
      Option.bind (put8 n (AVCProfileIndication self) b) (\<lambda>b.
      let n = n + 1 in
      Option.bind (PutU32BE n (ProfileCompatibility self) b) (\<lambda>b.
      let n = n + 4 in
      Option.bind (put8 n (AVCLevelIndication self) b) (\<lambda>b.
      Option.bind (marshalNalus (SPS self) n b) (\<lambda>(n, b).
      Option.bind (put8 n (word_of_nat (length (PPS self))) b) (\<lambda>b.
      let n = n + 1 in
      marshalNalus (PPS self) n b)))))))"

section \<open>The accept loop\<close>

text \<open>
  The loop of \<open>rtmpServeStart\<close> (lines 813 to 860), as a function of the outcomes of
  its successive calls of \<open>listener.Accept()\<close>: a connection, an error whose
  \<open>Temporary()\<close> is true, or another error. The result is the list of the durations it
  passes to \<open>time.Sleep\<close>, in nanoseconds as \<open>time.Duration\<close> counts them. The loop
  runs until an error that is not temporary; on a finite list of outcomes the function
  gives what the loop has done by the end of the list.

  \<^verbatim>\<open>var tempDelay time.Duration\<close> stands inside the body of the loop, so every
  iteration starts with a new variable at 0.
\<close>

datatype acceptResult = Accepted | TemporaryError | OtherError

definition Millisecond :: int where
  "Millisecond = 1000000"

definition Second :: int where
  "Second = 1000000000"

fun acceptLoop :: "acceptResult list \<Rightarrow> int list" where
  "acceptLoop [] = []"
| "acceptLoop (e # es) =
     (let tempDelay = (0 :: int) in
      case e of
        TemporaryError \<Rightarrow>
          (let tempDelay = (if tempDelay = 0 then 5 * Millisecond else tempDelay * 2);
               tempDelay = (if tempDelay > 1 * Second then 1 * Second else tempDelay)
           in tempDelay # acceptLoop es)
      | OtherError \<Rightarrow> []
      | Accepted \<Rightarrow> (let tempDelay = (0 :: int) in acceptLoop es))"

text \<open>
  The backoff as the specification words it, for comparison: the delay lives across the
  iterations, is 5 ms at the first temporary error of a run, doubles at each next one up
  to 1 s, and is reset by a successful accept.
\<close>

fun backoff_spec :: "int \<Rightarrow> acceptResult list \<Rightarrow> int list" where
  "backoff_spec tempDelay [] = []"
| "backoff_spec tempDelay (TemporaryError # es) =
     (let d = (if tempDelay = 0 then 5 * Millisecond else tempDelay * 2);
          d = (if d > 1 * Second then 1 * Second else d)
      in d # backoff_spec d es)"
| "backoff_spec tempDelay (OtherError # es) = []"
| "backoff_spec tempDelay (Accepted # es) = backoff_spec 0 es"

section \<open>Properties of the publisher registry\<close>

lemma shard_less: "shard a < HashMapFactors"
proof -
  have "hash a mod 101 < (101 :: u32)"
    by (rule word_mod_less_divisor) simp
  then have "unat (hash a mod 101) < unat (101 :: u32)"
    by (simp only: word_less_nat_alt)
  then show ?thesis
    by (simp add: shard_def HashMapFactors_def)
qed

lemma shard_unat: "shard a = unat (hash a) mod 101"
  by (simp add: shard_def unat_mod)

lemma length_Push: "length (snd (RtmpSessionPush reg s)) = length reg"
  by (simp add: RtmpSessionPush_def Let_def split: option.split)

lemma length_Del: "length (RtmpSessionDel reg s) = length reg"
  by (simp add: RtmpSessionDel_def Let_def)

lemma length_run_op: "length (run_op reg op) = length reg"
  by (cases op) (simp_all add: length_Push length_Del)

lemma length_run_ops: "length (run_ops ops reg) = length reg"
  unfolding run_ops_def by (induction ops arbitrary: reg) (simp_all add: length_run_op)

lemma Get_flat: "RtmpSessionGet reg a = flat reg a"
  by (simp add: RtmpSessionGet_def flat_def Let_def split: option.split)

lemma Push_fst: "fst (RtmpSessionPush reg s) = (flat reg (StreamAnchor s) = None)"
  by (simp add: RtmpSessionPush_def flat_def Let_def split: option.split)

lemma nth_Push:
  assumes "shard (StreamAnchor s) < length reg"
  shows "snd (RtmpSessionPush reg s) ! j =
    (if j = shard (StreamAnchor s) \<and> (reg ! j) (StreamAnchor s) = None
     then (reg ! j)(StreamAnchor s \<mapsto> s) else reg ! j)"
  using assms
  by (cases "(reg ! shard (StreamAnchor s)) (StreamAnchor s)")
    (auto simp add: RtmpSessionPush_def Let_def nth_list_update)

lemma nth_Del:
  assumes "shard (StreamAnchor s) < length reg"
  shows "RtmpSessionDel reg s ! j =
    (if j = shard (StreamAnchor s) then (reg ! j)(StreamAnchor s := None) else reg ! j)"
  using assms by (simp add: RtmpSessionDel_def Let_def nth_list_update)

lemma flat_Push:
  assumes "length reg = HashMapFactors"
  shows "flat (snd (RtmpSessionPush reg s)) = abstract_step (flat reg) (Push s)"
proof (rule ext)
  fix a
  have i: "shard (StreamAnchor s) < length reg"
    using assms shard_less [of "StreamAnchor s"] by simp
  show "flat (snd (RtmpSessionPush reg s)) a = abstract_step (flat reg) (Push s) a"
  proof (cases "a = StreamAnchor s")
    case True
    then show ?thesis by (simp add: flat_def nth_Push [OF i])
  next
    case False
    then show ?thesis by (simp add: flat_def nth_Push [OF i])
  qed
qed

lemma flat_Del:
  assumes "length reg = HashMapFactors"
  shows "flat (RtmpSessionDel reg s) = abstract_step (flat reg) (Del s)"
proof (rule ext)
  fix a
  have i: "shard (StreamAnchor s) < length reg"
    using assms shard_less [of "StreamAnchor s"] by simp
  show "flat (RtmpSessionDel reg s) a = abstract_step (flat reg) (Del s) a"
  proof (cases "a = StreamAnchor s")
    case True
    then show ?thesis by (simp add: flat_def nth_Del [OF i])
  next
    case False
    then show ?thesis by (simp add: flat_def nth_Del [OF i])
  qed
qed

lemma flat_run_op:
  "length reg = HashMapFactors \<Longrightarrow> flat (run_op reg op) = abstract_step (flat reg) op"
  by (cases op) (simp_all add: flat_Push flat_Del)

lemma flat_run_ops:
  "length reg = HashMapFactors \<Longrightarrow> flat (run_ops ops reg) = foldl abstract_step (flat reg) ops"
  unfolding run_ops_def
  by (induction ops arbitrary: reg) (simp_all add: flat_run_op length_run_op)

lemma flat_init: "flat init_registry = Map.empty"
  using shard_less by (auto simp add: flat_def init_registry_def fun_eq_iff)

lemma abstract_keeps:
  "m a = Some s1 \<Longrightarrow> \<forall>op \<in> set ops. \<not> removes a op \<Longrightarrow> foldl abstract_step m ops a = Some s1"
proof (induction ops arbitrary: m)
  case Nil then show ?case by simp
next
  case (Cons op ops)
  have "abstract_step m op a = Some s1"
    using Cons.prems by (cases op) auto
  then show ?case using Cons by simp
qed

lemma length_init_registry: "length init_registry = HashMapFactors"
  by (simp add: init_registry_def)

text \<open>
  C1. Insert-if-absent. Once \<open>RtmpSessionPush\<close> has returned true for a session
  \<open>s1\<close> with anchor \<open>a\<close>, then after any further pushes and any removals of other
  anchors, a push of a session \<open>s2\<close> with the same anchor returns false and leaves the
  whole registry as it was, and the entry of \<open>a\<close> is still \<open>s1\<close>. After
  \<open>RtmpSessionDel\<close> of a session with anchor \<open>a\<close> the push of \<open>s2\<close> returns true
  and registers \<open>s2\<close>.
\<close>

theorem registry_insert_if_absent:
  assumes "length reg = HashMapFactors"
    and "fst (RtmpSessionPush reg s1)"
    and "StreamAnchor s2 = StreamAnchor s1"
    and "StreamAnchor d = StreamAnchor s1"
    and "\<forall>op \<in> set ops. \<not> removes (StreamAnchor s1) op"
  shows "(let reg' = run_ops ops (snd (RtmpSessionPush reg s1)) in
      RtmpSessionPush reg' s2 = (False, reg')
    \<and> RtmpSessionGet reg' (StreamAnchor s1) = Some s1
    \<and> fst (RtmpSessionPush (RtmpSessionDel reg' d) s2)
    \<and> RtmpSessionGet (snd (RtmpSessionPush (RtmpSessionDel reg' d) s2)) (StreamAnchor s1) = Some s2)"
proof -
  define reg1 where "reg1 = snd (RtmpSessionPush reg s1)"
  define reg' where "reg' = run_ops ops reg1"
  have len1: "length reg1 = HashMapFactors"
    using assms(1) by (simp add: reg1_def length_Push)
  have len': "length reg' = HashMapFactors"
    using len1 by (simp add: reg'_def length_run_ops)
  have "flat reg1 (StreamAnchor s1) = Some s1"
    using assms(1,2) by (simp add: reg1_def flat_Push Push_fst)
  then have entry: "flat reg' (StreamAnchor s1) = Some s1"
    using assms(5) len1 by (simp add: reg'_def flat_run_ops abstract_keeps)
  have "\<not> fst (RtmpSessionPush reg' s2)"
    using entry assms(3) by (simp add: Push_fst)
  moreover have "snd (RtmpSessionPush reg' s2) = reg'"
    using entry assms(3) by (simp add: RtmpSessionPush_def flat_def Let_def)
  ultimately have rejected: "RtmpSessionPush reg' s2 = (False, reg')"
    by (simp add: prod_eq_iff)
  have lenD: "length (RtmpSessionDel reg' d) = HashMapFactors"
    using len' by (simp add: length_Del)
  have gone: "flat (RtmpSessionDel reg' d) (StreamAnchor s2) = None"
    using len' assms(3,4) by (simp add: flat_Del)
  then have again: "fst (RtmpSessionPush (RtmpSessionDel reg' d) s2)"
    by (simp add: Push_fst)
  have "flat (snd (RtmpSessionPush (RtmpSessionDel reg' d) s2)) (StreamAnchor s1) = Some s2"
    using lenD gone assms(3) by (simp add: flat_Push)
  with rejected entry again show ?thesis
    by (simp add: Get_flat Let_def reg'_def reg1_def)
qed

theorem registry_insert_if_absent_witness:
  "(let s1 = ((NewSesion [] (1::nat))\<lparr>StreamAnchor := ''h/live/a''\<rparr>);
        s2 = ((NewSesion [] (2::nat))\<lparr>StreamAnchor := ''h/live/a''\<rparr>);
        o1 = ((NewSesion [] (3::nat))\<lparr>StreamAnchor := ''h/live/b''\<rparr>);
        reg' = run_ops [Push s2, Push o1, Del o1, Push s2] (snd (RtmpSessionPush init_registry s1))
    in fst (RtmpSessionPush init_registry s1)
     \<and> RtmpSessionPush reg' s2 = (False, reg')
     \<and> RtmpSessionGet reg' ''h/live/a'' = Some s1
     \<and> fst (RtmpSessionPush (RtmpSessionDel reg' s1) s2)
     \<and> RtmpSessionGet (snd (RtmpSessionPush (RtmpSessionDel reg' s1) s2)) ''h/live/a'' = Some s2)"
proof -
  have p: "fst (RtmpSessionPush init_registry ((NewSesion [] (1::nat))\<lparr>StreamAnchor := ''h/live/a''\<rparr>))"
    by (simp add: Push_fst flat_init)
  show ?thesis
    using registry_insert_if_absent [OF length_init_registry p,
      of "((NewSesion [] (2::nat))\<lparr>StreamAnchor := ''h/live/a''\<rparr>)"
         "((NewSesion [] (1::nat))\<lparr>StreamAnchor := ''h/live/a''\<rparr>)"
         "[Push ((NewSesion [] (2::nat))\<lparr>StreamAnchor := ''h/live/a''\<rparr>),
           Push ((NewSesion [] (3::nat))\<lparr>StreamAnchor := ''h/live/b''\<rparr>),
           Del ((NewSesion [] (3::nat))\<lparr>StreamAnchor := ''h/live/b''\<rparr>),
           Push ((NewSesion [] (2::nat))\<lparr>StreamAnchor := ''h/live/a''\<rparr>)]"] p
    by (simp add: Let_def)
qed

text \<open>
  C2. Lookup agrees with insert under FNV-32a sharding. The shard of an anchor is
  FNV-32a of the anchor modulo 101, an index into the 101-entry array; get reads that
  shard, push and delete change that shard only; and after any history of pushes and
  deletes from the initial registry, get returns what the one flat insert-if-absent map
  of the specification holds for the anchor: the session of the last push that
  succeeded for it if it has not been removed since, and nothing otherwise.
\<close>

theorem registry_lookup_agrees_with_insert:
  assumes "length reg = HashMapFactors"
  shows "shard a = unat (hash a) mod 101
    \<and> shard a < length reg
    \<and> RtmpSessionGet reg a = (reg ! shard a) a
    \<and> (\<forall>j. snd (RtmpSessionPush reg s) ! j =
          (if j = shard (StreamAnchor s) \<and> (reg ! j) (StreamAnchor s) = None
           then (reg ! j)(StreamAnchor s \<mapsto> s) else reg ! j))
    \<and> fst (RtmpSessionPush reg s) = ((reg ! shard (StreamAnchor s)) (StreamAnchor s) = None)
    \<and> (\<forall>j. RtmpSessionDel reg s ! j =
          (if j = shard (StreamAnchor s) then (reg ! j)(StreamAnchor s := None) else reg ! j))
    \<and> (fst (RtmpSessionPush reg s) \<longrightarrow>
          RtmpSessionGet (snd (RtmpSessionPush reg s)) (StreamAnchor s) = Some s)
    \<and> RtmpSessionGet (RtmpSessionDel reg s) (StreamAnchor s) = None
    \<and> RtmpSessionGet (run_ops ops init_registry) a = foldl abstract_step Map.empty ops a"
proof -
  have i: "shard (StreamAnchor s) < length reg" "shard a < length reg"
    using assms shard_less [of "StreamAnchor s"] shard_less [of a] by simp_all
  have "fst (RtmpSessionPush reg s) \<longrightarrow>
      RtmpSessionGet (snd (RtmpSessionPush reg s)) (StreamAnchor s) = Some s"
    using assms by (simp add: Get_flat flat_Push Push_fst)
  moreover have "RtmpSessionGet (RtmpSessionDel reg s) (StreamAnchor s) = None"
    using assms by (simp add: Get_flat flat_Del)
  moreover have "RtmpSessionGet (run_ops ops init_registry) a = foldl abstract_step Map.empty ops a"
    by (simp add: Get_flat flat_run_ops length_init_registry flat_init)
  moreover have "RtmpSessionGet reg a = (reg ! shard a) a"
    by (simp add: Get_flat flat_def)
  moreover have "fst (RtmpSessionPush reg s) = ((reg ! shard (StreamAnchor s)) (StreamAnchor s) = None)"
    by (simp add: Push_fst flat_def)
  ultimately show ?thesis
    using i by (simp add: shard_unat nth_Push [OF i(1)] nth_Del [OF i(1)])
qed

theorem registry_lookup_agrees_with_insert_witness:
  "(let s1 = ((NewSesion [] (1::nat))\<lparr>StreamAnchor := ''h/live/a''\<rparr>);
        s2 = ((NewSesion [] (2::nat))\<lparr>StreamAnchor := ''h/live/a''\<rparr>);
        o1 = ((NewSesion [] (3::nat))\<lparr>StreamAnchor := ''h/live/b''\<rparr>)
    in length (init_registry :: nat registry) = HashMapFactors
     \<and> shard ''h/live/a'' = 59
     \<and> RtmpSessionGet init_registry ''h/live/a'' = (None :: nat Session_scheme option)
     \<and> RtmpSessionGet (snd (RtmpSessionPush init_registry s1)) ''h/live/a'' = Some s1
     \<and> RtmpSessionGet (run_ops [Push s1, Push o1, Push s2] init_registry) ''h/live/a'' = Some s1
     \<and> RtmpSessionGet (run_ops [Push s1, Del s2, Push s2] init_registry) ''h/live/a'' = Some s2
     \<and> RtmpSessionGet (run_ops [Push s1, Push s2, Del s1] init_registry) ''h/live/a'' = None)"
proof -
  define s1 where "s1 = ((NewSesion [] (1::nat))\<lparr>StreamAnchor := ''h/live/a''\<rparr>)"
  define s2 where "s2 = ((NewSesion [] (2::nat))\<lparr>StreamAnchor := ''h/live/a''\<rparr>)"
  define o1 where "o1 = ((NewSesion [] (3::nat))\<lparr>StreamAnchor := ''h/live/b''\<rparr>)"
  have a [simp]: "StreamAnchor s1 = ''h/live/a''" "StreamAnchor s2 = ''h/live/a''"
    "StreamAnchor o1 = ''h/live/b''"
    by (simp_all add: s1_def s2_def o1_def)
  have h: "hash ''h/live/a'' = 0xADDF24FA"
    by (simp add: hash_def sum32a_step_def offset32_def prime32_def)
  have e: "(init_registry :: nat registry) ! 59 = Map.empty"
    by (simp add: init_registry_def HashMapFactors_def)
  note t = registry_lookup_agrees_with_insert [OF length_init_registry, where 'a = nat]
  have sh: "shard ''h/live/a'' = 59"
    using t [of "''h/live/a''" s1 "[]"] by (elim conjE) (simp add: h)
  have g0: "RtmpSessionGet init_registry ''h/live/a'' = (None :: nat Session_scheme option)"
    using t [of "''h/live/a''" s1 "[]"] by (elim conjE) (simp add: sh e)
  have g1: "RtmpSessionGet (snd (RtmpSessionPush init_registry s1)) ''h/live/a'' = Some s1"
    using t [of "''h/live/a''" s1 "[]"] by (elim conjE) (simp add: sh e)
  have g2: "RtmpSessionGet (run_ops [Push s1, Push o1, Push s2] init_registry) ''h/live/a'' = Some s1"
    using t [of "''h/live/a''" s1 "[Push s1, Push o1, Push s2]"] by (elim conjE) simp
  have g3: "RtmpSessionGet (run_ops [Push s1, Del s2, Push s2] init_registry) ''h/live/a'' = Some s2"
    using t [of "''h/live/a''" s1 "[Push s1, Del s2, Push s2]"] by (elim conjE) simp
  have g4: "RtmpSessionGet (run_ops [Push s1, Push s2, Del s1] init_registry) ''h/live/a'' = None"
    using t [of "''h/live/a''" s1 "[Push s1, Push s2, Del s1]"] by (elim conjE) simp
  show ?thesis
    using sh g0 g1 g2 g3 g4 length_init_registry [where 'a = nat]
    unfolding s1_def s2_def o1_def Let_def by simp
qed

section \<open>Facts about bytes and words\<close>

lemma unat_u8_less: "unat (h :: u8) < 256"
  using unsigned_less [of h, where 'a = nat] by simp

lemma fmt_unat: "unat (drop_bit 6 (h :: u8)) = unat h div 64"
  by (simp add: drop_bit_eq_div unat_div)

lemma fmt_less: "unat (drop_bit 6 (h :: u8)) < 4"
  using unat_u8_less [of h] by (simp add: fmt_unat)

lemma fmt_cases: "drop_bit 6 (h :: u8) = 0 \<or> drop_bit 6 h = 1 \<or> drop_bit 6 h = 2 \<or> drop_bit 6 h = 3"
proof -
  have "unat (drop_bit 6 h) < 4" by (rule fmt_less)
  then have "unat (drop_bit 6 h) = unat (0 :: u8) \<or> unat (drop_bit 6 h) = unat (1 :: u8)
      \<or> unat (drop_bit 6 h) = unat (2 :: u8) \<or> unat (drop_bit 6 h) = unat (3 :: u8)"
    by (simp only: unat_numeral unsigned_0 unsigned_1) auto
  then show ?thesis
    by (simp only: word_unat_eq_iff [symmetric])
qed

lemma unat_ucast_8_32: "unat (ucast (b :: u8) :: u32) = unat b"
  using unat_u8_less [of b] by (simp add: unsigned_ucast_eq take_bit_eq_mod)

lemma unat_u16_less: "unat (h :: u16) < 65536"
  using unsigned_less [of h, where 'a = nat] by simp

lemma unat_ucast_16_32: "unat (ucast (b :: u16) :: u32) = unat b"
  using unat_u16_less [of b] by (simp add: unsigned_ucast_eq take_bit_eq_mod)

lemma csid_low_unat: "unat ((ucast (h :: u8) :: u32) AND 0x3f) = unat h mod 64"
proof -
  have "(0x3f :: u32) = mask 6" by (simp add: mask_eq_exp_minus_1)
  then have "unat ((ucast h :: u32) AND 0x3f) = unat (take_bit 6 (ucast h :: u32))"
    by (simp add: take_bit_eq_mask)
  also have "\<dots> = take_bit 6 (unat (ucast h :: u32))"
    by (simp add: unsigned_take_bit_eq)
  also have "\<dots> = unat h mod 64"
    by (simp add: take_bit_eq_mod unat_ucast_8_32)
  finally show ?thesis .
qed

lemma csid2_unat: "unat ((ucast (b :: u8) :: u32) + 64) = unat b + 64"
  using unat_u8_less [of b] by (simp add: unat_word_ariths unat_ucast_8_32)

lemma csid3_unat: "unat ((ucast (w :: u16) :: u32) + 64) = unat w + 64"
  using unat_u16_less [of w] by (simp add: unat_word_ariths unat_ucast_16_32)

lemma U16BE_unat: "unat (U16BE [b1, b2]) = 256 * unat b1 + unat b2"
proof -
  have d: "push_bit 8 (ucast b1 :: u16) AND ucast b2 = 0"
    by (rule bit_word_eqI) (auto simp add: bit_simps dest: bit_imp_le_length)
  have "U16BE [b1, b2] = push_bit 8 (ucast b1) + ucast b2"
    unfolding U16BE_def using disjunctive_add_eq_or [of "push_bit 8 (ucast b1 :: u16)" "ucast b2", OF d]
    by simp
  moreover have "unat (ucast b1 :: u16) = unat b1" "unat (ucast b2 :: u16) = unat b2"
    using unat_u8_less [of b1] unat_u8_less [of b2]
    by (simp_all add: unsigned_ucast_eq take_bit_eq_mod)
  ultimately show ?thesis
    using unat_u8_less [of b1] unat_u8_less [of b2]
    by (simp add: unat_word_ariths push_bit_eq_mult)
qed

section \<open>The shape of the reader's results\<close>

lemma csid_low_eq_0: "((ucast (h :: u8) :: u32) AND 0x3f = 0) = (unat h mod 64 = 0)"
  by (simp add: word_unat_eq_iff [of _ "0 :: u32"] csid_low_unat)

lemma csid_low_eq_1: "((ucast (h :: u8) :: u32) AND 0x3f = 1) = (unat h mod 64 = 1)"
  by (simp add: word_unat_eq_iff [of _ "1 :: u32"] csid_low_unat)

lemma ReadFull_ok: "k \<le> length inp \<Longrightarrow> ReadFull k inp = (None, take k inp, drop k inp)"
  by (simp add: ReadFull_def)

lemma ReadFull_err:
  "ReadFull k inp = (Some e, b, r) \<Longrightarrow> (e = EOF \<or> e = ErrUnexpectedEOF) \<and> r = []"
  by (auto simp add: ReadFull_def split: if_splits)


lemma readBasicHeader_err:
  "readBasicHeader inp = (Inl e, r) \<Longrightarrow> e = EOF \<or> e = ErrUnexpectedEOF"
  by (auto simp add: readBasicHeader_def Let_def split: prod.splits option.splits if_splits
      dest: ReadFull_err)

lemma readBasicHeader_fmt:
  "readBasicHeader inp = (Inr (fmtTpye, csid, n), r) \<Longrightarrow>
     fmtTpye = 0 \<or> fmtTpye = 1 \<or> fmtTpye = 2 \<or> fmtTpye = 3"
  using fmt_cases
  by (auto simp add: readBasicHeader_def Let_def split: prod.splits option.splits if_splits)

lemma readTimeExt_err:
  "readTimeExt ts n cs inp = (Inl e, cs', r) \<Longrightarrow> e = EOF \<or> e = ErrUnexpectedEOF"
  by (auto simp add: readTimeExt_def split: prod.splits option.splits if_splits dest: ReadFull_err)

lemma Start_simps [simp]:
  "msgdataleft (Start cs) = msgdatalen cs"
  "msgdatalen (Start cs) = msgdatalen cs"
  "msgdata (Start cs) = replicate (unat (msgdatalen cs)) 0"
  "timenow (Start cs) = timenow cs"
  "timedelta (Start cs) = timedelta cs"
  "hastimeext (Start cs) = hastimeext cs"
  "msgsid (Start cs) = msgsid cs"
  "msgtypeid (Start cs) = msgtypeid cs"
  "msghdrtype (Start cs) = msghdrtype cs"
  by (simp_all add: Start_def)

lemma readMsgHeader_0:
  "readMsgHeader 0 n cs inp =
     (if msgdataleft cs \<noteq> 0 then (Inl (ErrMsgDataLeft (msgdataleft cs)), cs, inp)
      else case ReadFull 11 inp of
        (Some err, h, inp) \<Rightarrow> (Inl err, cs, inp)
      | (None, h, inp) \<Rightarrow>
          (case readTimeExt (U24BE (subslice 0 3 h)) (n + 11)
                  (cs\<lparr>msghdrtype := 0, msgdatalen := U24BE (subslice 3 6 h),
                      msgtypeid := h ! 6, msgsid := U32LE (subslice 7 11 h)\<rparr>) inp of
             (Inl err, cs, inp) \<Rightarrow> (Inl err, cs, inp)
           | (Inr (timestamp, n), cs, inp) \<Rightarrow> (Inr n, Start (cs\<lparr>timenow := timestamp\<rparr>), inp)))"
  by (simp add: readMsgHeader_def Let_def split: prod.split option.split)

lemma readMsgHeader_1:
  "readMsgHeader 1 n cs inp =
     (if msgdataleft cs \<noteq> 0 then (Inl (ErrMsgDataLeft (msgdataleft cs)), cs, inp)
      else case ReadFull 7 inp of
        (Some err, h, inp) \<Rightarrow> (Inl err, cs, inp)
      | (None, h, inp) \<Rightarrow>
          (case readTimeExt (U24BE (subslice 0 3 h)) (n + 7)
                  (cs\<lparr>msghdrtype := 1, msgdatalen := U24BE (subslice 3 6 h),
                      msgtypeid := h ! 6\<rparr>) inp of
             (Inl err, cs, inp) \<Rightarrow> (Inl err, cs, inp)
           | (Inr (timestamp, n), cs, inp) \<Rightarrow>
               (Inr n, Start (cs\<lparr>timedelta := timestamp, timenow := timenow cs + timestamp\<rparr>), inp)))"
  by (simp add: readMsgHeader_def Let_def split: prod.split option.split)

lemma readMsgHeader_2:
  "readMsgHeader 2 n cs inp =
     (if msgdataleft cs \<noteq> 0 then (Inl (ErrMsgDataLeft (msgdataleft cs)), cs, inp)
      else case ReadFull 3 inp of
        (Some err, h, inp) \<Rightarrow> (Inl err, cs, inp)
      | (None, h, inp) \<Rightarrow>
          (case readTimeExt (U24BE (subslice 0 3 h)) (n + 3) (cs\<lparr>msghdrtype := 2\<rparr>) inp of
             (Inl err, cs, inp) \<Rightarrow> (Inl err, cs, inp)
           | (Inr (timestamp, n), cs, inp) \<Rightarrow>
               (Inr n, Start (cs\<lparr>timedelta := timestamp, timenow := timenow cs + timestamp\<rparr>), inp)))"
  by (simp add: readMsgHeader_def Let_def split: prod.split option.split)

lemma readMsgHeader_3:
  "readMsgHeader 3 n cs inp =
     (case readTime3 n cs inp of
        (Inl err, cs, inp) \<Rightarrow> (Inl err, cs, inp)
      | (Inr n, cs, inp) \<Rightarrow> (Inr n, if msgdataleft cs = 0 then Start cs else cs, inp))"
  by (simp add: readMsgHeader_def readTime3_def EXTTIME_def)

lemma readTime3_err:
  "readTime3 n cs inp = (Inl e, cs', r) \<Longrightarrow> e = EOF \<or> e = ErrUnexpectedEOF"
  by (auto simp add: readTime3_def split: prod.splits option.splits if_splits dest: ReadFull_err)

lemma readMsgHeader_err:
  assumes "readMsgHeader fmtTpye n cs inp = (Inl e, cs', r)"
    and "fmtTpye = 0 \<or> fmtTpye = 1 \<or> fmtTpye = 2 \<or> fmtTpye = 3"
  shows "e = EOF \<or> e = ErrUnexpectedEOF \<or> e = ErrMsgDataLeft (msgdataleft cs)"
proof -
  consider "fmtTpye = 0" | "fmtTpye = 1" | "fmtTpye = 2" | "fmtTpye = 3"
    using assms(2) by blast
  then show ?thesis
  proof cases
    case 1
    with assms(1) show ?thesis
      by (auto simp add: readMsgHeader_0 split: prod.splits option.splits if_splits sum.splits
          dest: ReadFull_err readTimeExt_err)
  next
    case 2
    with assms(1) show ?thesis
      by (auto simp add: readMsgHeader_1 split: prod.splits option.splits if_splits sum.splits
          dest: ReadFull_err readTimeExt_err)
  next
    case 3
    with assms(1) show ?thesis
      by (auto simp add: readMsgHeader_2 split: prod.splits option.splits if_splits sum.splits
          dest: ReadFull_err readTimeExt_err)
  next
    case 4
    with assms(1) show ?thesis
      by (auto simp add: readMsgHeader_3 split: prod.splits sum.splits dest: readTime3_err)
  qed
qed

lemma readPayload_err:
  "readPayload m n cs inp = (Inl e, cs', r) \<Longrightarrow>
     e = EOF \<or> e = ErrUnexpectedEOF \<or> e = PanicSliceBounds"
  by (auto simp add: readPayload_def Let_def split: prod.splits option.splits if_splits
      dest: ReadFull_err)

lemma decodeChunk_err:
  assumes "decodeChunk self = (Inl e, self')"
  shows "e = EOF \<or> e = ErrUnexpectedEOF \<or> e = PanicSliceBounds \<or> (\<exists>left. e = ErrMsgDataLeft left)"
proof (cases "readBasicHeader (bufr self)")
  case (Pair r0 inp0)
  show ?thesis
  proof (cases r0)
    case (Inl e0)
    with Pair assms show ?thesis
      by (auto simp add: decodeChunk_def dest: readBasicHeader_err)
  next
    case (Inr t)
    obtain fmtTpye csid n0 where t: "t = (fmtTpye, csid, n0)" by (cases t)
    define cs0 where "cs0 = (case readcsmap self csid of None \<Rightarrow> zero_chunkStream | Some cs \<Rightarrow> cs)"
    have f: "fmtTpye = 0 \<or> fmtTpye = 1 \<or> fmtTpye = 2 \<or> fmtTpye = 3"
      using Pair Inr t by (auto dest: readBasicHeader_fmt)
    obtain r1 cs1 inp1 where m: "readMsgHeader fmtTpye n0 cs0 inp0 = (r1, cs1, inp1)"
      by (cases "readMsgHeader fmtTpye n0 cs0 inp0")
    show ?thesis
    proof (cases r1)
      case (Inl e1)
      then have "e = e1"
        using assms Pair Inr t m by (simp add: decodeChunk_def cs0_def)
      with m Inl f show ?thesis
        by (auto dest!: readMsgHeader_err)
    next
      case n1: (Inr n1)
      obtain r2 cs2 inp2 where p: "readPayload (readMaxChunkSize self) n1 cs1 inp1 = (r2, cs2, inp2)"
        by (cases "readPayload (readMaxChunkSize self) n1 cs1 inp1")
      show ?thesis
      proof (cases r2)
        case (Inl e2)
        then have "e = e2"
          using assms Pair Inr t m n1 p by (simp add: decodeChunk_def cs0_def)
        with p Inl show ?thesis
          by (auto dest!: readPayload_err)
      next
        case (Inr n2)
        then show ?thesis
          using assms Pair \<open>r0 = Inr t\<close> t m n1 p by (simp add: decodeChunk_def cs0_def)
      qed
    qed
  qed
qed

lemma deliver_err:
  "deliver RR hands cs self = (Some e, self', calls) \<Longrightarrow> \<exists>msg. e = ErrHandler msg"
  by (auto simp add: deliver_def Let_def split: if_splits option.splits prod.splits)

lemma ackWindow_err:
  "ackWindow WA n self = (Some e, self', calls) \<Longrightarrow> \<exists>msg. e = ErrWrite msg"
  by (auto simp add: ackWindow_def Let_def split: if_splits option.splits prod.splits)

lemma readChunk_err:
  assumes "readChunk RR WA hands self = (Some e, self', calls)"
  shows "e = EOF \<or> e = ErrUnexpectedEOF \<or> e = PanicSliceBounds \<or> (\<exists>left. e = ErrMsgDataLeft left)
    \<or> (\<exists>msg. e = ErrHandler msg) \<or> (\<exists>msg. e = ErrWrite msg)"
proof (cases "decodeChunk self")
  case (Pair r s1)
  show ?thesis
  proof (cases r)
    case (Inl e1)
    with Pair assms have "decodeChunk self = (Inl e, s1)"
      by (simp add: readChunk_def)
    then show ?thesis
      using decodeChunk_err by blast
  next
    case (Inr t)
    obtain csid n cs where t: "t = (csid, n, cs)" by (cases t)
    obtain e2 s2 c2 where d: "deliver RR hands cs s1 = (e2, s2, c2)"
      by (cases "deliver RR hands cs s1")
    show ?thesis
    proof (cases e2)
      case (Some e2')
      with Pair Inr t d assms have "e = e2'"
        by (simp add: readChunk_def)
      with d Some show ?thesis
        using deliver_err by blast
    next
      case None
      obtain e3 s3 c3 where a: "ackWindow WA n s2 = (e3, s3, c3)"
        by (cases "ackWindow WA n s2")
      with Pair Inr t d None assms have "e3 = Some e"
        by (simp add: readChunk_def)
      with a show ?thesis
        using ackWindow_err by blast
    qed
  qed
qed


section \<open>The count of bytes read\<close>

lemma readBasicHeader_count:
  "readBasicHeader inp = (Inr (f, c, n), r) \<Longrightarrow>
     length r \<le> length inp \<and> n = int (length inp) - int (length r) \<and> 0 < n"
  by (auto simp add: readBasicHeader_def Let_def ReadFull_def split: if_splits)

lemma readTimeExt_count:
  "readTimeExt ts n cs inp = (Inr (ts', n'), cs', r) \<Longrightarrow>
     length r \<le> length inp \<and> n' = n + (int (length inp) - int (length r))"
  by (auto simp add: readTimeExt_def ReadFull_def split: if_splits)

lemma readTime3_count:
  "readTime3 n cs inp = (Inr n', cs', r) \<Longrightarrow>
     length r \<le> length inp \<and> n' = n + (int (length inp) - int (length r))"
  by (auto simp add: readTime3_def ReadFull_def split: if_splits)

lemma readMsgHeader_count:
  assumes "readMsgHeader fmtTpye n cs inp = (Inr n', cs', r)"
  shows "length r \<le> length inp \<and> n' = n + (int (length inp) - int (length r))"
proof -
  consider "fmtTpye = 0" | "fmtTpye = 1" | "fmtTpye = 2" | "fmtTpye = 3"
    | "fmtTpye \<noteq> 0 \<and> fmtTpye \<noteq> 1 \<and> fmtTpye \<noteq> 2 \<and> fmtTpye \<noteq> 3"
    by blast
  then show ?thesis
  proof cases
    case 1
    with assms show ?thesis
      by (auto simp add: readMsgHeader_0 ReadFull_def
          split: if_splits prod.splits sum.splits dest!: readTimeExt_count)
  next
    case 2
    with assms show ?thesis
      by (auto simp add: readMsgHeader_1 ReadFull_def
          split: if_splits prod.splits sum.splits dest!: readTimeExt_count)
  next
    case 3
    with assms show ?thesis
      by (auto simp add: readMsgHeader_2 ReadFull_def
          split: if_splits prod.splits sum.splits dest!: readTimeExt_count)
  next
    case 4
    with assms show ?thesis
      by (auto simp add: readMsgHeader_3 split: prod.splits sum.splits dest!: readTime3_count)
  next
    case 5
    with assms show ?thesis
      by (simp add: readMsgHeader_def)
  qed
qed

lemma readPayload_count:
  "readPayload m n cs inp = (Inr n', cs', r) \<Longrightarrow>
     length r \<le> length inp \<and> n' = n + (int (length inp) - int (length r))"
  by (auto simp add: readPayload_def Let_def ReadFull_def split: if_splits)

text \<open>How a successful decoding of a chunk is put together from its steps.\<close>

lemma decodeChunk_InrD:
  assumes "decodeChunk self = (Inr (csid, n, cs), self1)"
  shows "\<exists>fmtTpye n0 inp0 n1 cs1 inp1.
      readBasicHeader (bufr self) = (Inr (fmtTpye, csid, n0), inp0)
    \<and> readMsgHeader fmtTpye n0
         (case readcsmap self csid of None \<Rightarrow> zero_chunkStream | Some c \<Rightarrow> c) inp0
         = (Inr n1, cs1, inp1)
    \<and> readPayload (readMaxChunkSize self) n1 cs1 inp1 = (Inr n, cs, bufr self1)
    \<and> self1 = self\<lparr>readcsmap := (readcsmap self)(csid \<mapsto> cs), bufr := bufr self1\<rparr>"
  using assms
  by (auto simp add: decodeChunk_def Let_def split: prod.splits sum.splits)

lemma decodeChunk_count:
  assumes "decodeChunk self = (Inr (csid, n, cs), self1)"
  shows "n = int (length (bufr self)) - int (length (bufr self1))"
proof -
  from decodeChunk_InrD [OF assms] obtain fmtTpye n0 inp0 n1 cs1 inp1 where
    b: "readBasicHeader (bufr self) = (Inr (fmtTpye, csid, n0), inp0)"
    and m: "readMsgHeader fmtTpye n0
         (case readcsmap self csid of None \<Rightarrow> zero_chunkStream | Some c \<Rightarrow> c) inp0
         = (Inr n1, cs1, inp1)"
    and p: "readPayload (readMaxChunkSize self) n1 cs1 inp1 = (Inr n, cs, bufr self1)"
    by blast
  from readBasicHeader_count [OF b] readMsgHeader_count [OF m] readPayload_count [OF p]
  show ?thesis by simp
qed

section \<open>The chunk streams stay well-formed\<close>





lemma streams_ok_NewSesion: "streams_ok (NewSesion inp z)"
  by (simp add: streams_ok_def NewSesion_def)





section \<open>The calls readChunk makes\<close>

lemma deliver_calls:
  "deliver RR hands cs self = (e, self', calls) \<Longrightarrow>
     (CallReadRegister \<in> set calls \<longleftrightarrow> msgdataleft cs = 0)
   \<and> (\<forall>ts sid tid d. CallHandler ts sid tid d \<in> set calls \<longleftrightarrow>
          msgdataleft cs = 0 \<and> hands (msgtypeid cs) \<noteq> None
        \<and> ts = timenow cs \<and> sid = msgsid cs \<and> tid = msgtypeid cs \<and> d = msgdata cs)
   \<and> (\<forall>v. CallWriteAck v \<notin> set calls)"
  by (auto simp add: deliver_def Let_def split: if_splits option.splits prod.splits)

lemma ackWindow_calls:
  "ackWindow WA n self = (e, self', calls) \<Longrightarrow>
     CallReadRegister \<notin> set calls \<and> (\<forall>ts sid tid d. CallHandler ts sid tid d \<notin> set calls)
   \<and> (\<forall>v. CallWriteAck v \<in> set calls \<longleftrightarrow>
          readAckSize self \<noteq> 0 \<and> v = ackn self + word_of_int n \<and> v > readAckSize self)"
  by (auto simp add: ackWindow_def Let_def split: if_splits option.splits prod.splits)

lemma readChunk_calls:
  assumes d: "decodeChunk self = (Inr (csid, n, cs), self1)"
    and r: "readChunk RR WA hands self = (err, self', calls)"
  shows "(CallReadRegister \<in> set calls \<longleftrightarrow> msgdataleft cs = 0)
   \<and> (\<forall>ts sid tid d. CallHandler ts sid tid d \<in> set calls \<longleftrightarrow>
          msgdataleft cs = 0 \<and> hands (msgtypeid cs) \<noteq> None
        \<and> ts = timenow cs \<and> sid = msgsid cs \<and> tid = msgtypeid cs \<and> d = msgdata cs)"
proof -
  obtain e2 s2 c2 where dl: "deliver RR hands cs self1 = (e2, s2, c2)"
    by (cases "deliver RR hands cs self1")
  note dc = deliver_calls [OF dl]
  show ?thesis
  proof (cases e2)
    case (Some a)
    with d r dl have "calls = c2"
      by (simp add: readChunk_def)
    with dc show ?thesis by simp
  next
    case None
    obtain e3 s3 c3 where a: "ackWindow WA n s2 = (e3, s3, c3)"
      by (cases "ackWindow WA n s2")
    with d r dl None have "calls = c2 @ c3"
      by (simp add: readChunk_def)
    with dc ackWindow_calls [OF a] show ?thesis by simp
  qed
qed





section \<open>Writing and reading back big-endian and little-endian values\<close>

lemma range4:
  assumes "n < (32::nat)"
  obtains "n < 8" | "8 \<le> n" "n < 16" | "16 \<le> n" "n < 24" | "24 \<le> n" "n < 32"
  using assms by linarith

lemma U32BE_bytes:
  "U32BE (ucast (drop_bit 24 v) # ucast (drop_bit 16 v) # ucast (drop_bit 8 v) # ucast v # xs) = (v :: u32)"
proof (rule bit_word_eqI)
  fix n assume "n < LENGTH(32)"
  then have "n < 32" by simp
  then show "bit (U32BE (ucast (drop_bit 24 v) # ucast (drop_bit 16 v) # ucast (drop_bit 8 v) # ucast v # xs)) n = bit v n"
    unfolding U32BE_def
    by (cases rule: range4) (auto simp add: bit_simps nth_Cons')
qed

lemma U32LE_bytes:
  "U32LE (ucast v # ucast (drop_bit 8 v) # ucast (drop_bit 16 v) # ucast (drop_bit 24 v) # xs) = (v :: u32)"
proof (rule bit_word_eqI)
  fix n assume "n < LENGTH(32)"
  then have "n < 32" by simp
  then show "bit (U32LE (ucast v # ucast (drop_bit 8 v) # ucast (drop_bit 16 v) # ucast (drop_bit 24 v) # xs)) n = bit v n"
    unfolding U32LE_def
    by (cases rule: range4) (auto simp add: bit_simps nth_Cons')
qed

lemma U24BE_bytes:
  "U24BE (ucast (drop_bit 16 v) # ucast (drop_bit 8 v) # ucast v # xs) = take_bit 24 (v :: u32)"
proof (rule bit_word_eqI)
  fix n assume "n < LENGTH(32)"
  then have "n < 32" by simp
  then show "bit (U24BE (ucast (drop_bit 16 v) # ucast (drop_bit 8 v) # ucast v # xs)) n = bit (take_bit 24 v) n"
    unfolding U24BE_def
    by (cases rule: range4) (auto simp add: bit_simps nth_Cons')
qed

lemma take_bit_24_id: "(v :: u32) < 0x1000000 \<Longrightarrow> take_bit 24 v = v"
  using less_mask_eq [of v 24] by (simp add: take_bit_eq_mask)

lemma take_bit_24_max: "take_bit 24 (0xffffff :: u32) = 0xffffff"
  by simp

lemma csid_less_bit: "unat (csid :: u32) < 64 \<Longrightarrow> bit csid n \<Longrightarrow> n < 6"
proof (rule ccontr)
  assume a: "unat csid < 64" and b: "bit csid n" and c: "\<not> n < 6"
  have "csid < 2 ^ 6"
    using a by (simp add: word_less_nat_alt)
  then have "csid AND mask 6 = csid"
    by (rule less_mask_eq)
  then have "bit (csid AND mask 6) n"
    using b by simp
  then show False
    using c by (simp add: bit_simps)
qed

lemma hdr0_fmt: "drop_bit 6 ((ucast (csid :: u32) :: u8) AND 0x3f) = 0"
proof -
  have m: "(0x3f :: u8) = mask 6" by (simp add: mask_eq_exp_minus_1)
  show ?thesis
    unfolding m by (rule bit_word_eqI) (simp add: bit_simps)
qed

lemma hdr0_csid:
  assumes "unat (csid :: u32) < 64"
  shows "(ucast ((ucast csid :: u8) AND 0x3f) :: u32) AND 0x3f = csid"
proof -
  have m: "(0x3f :: u8) = mask 6" "(0x3f :: u32) = mask 6" by (simp_all add: mask_eq_exp_minus_1)
  show ?thesis
    unfolding m
    by (rule bit_word_eqI) (auto simp add: bit_simps dest: csid_less_bit [OF assms])
qed

lemma hdr3_fmt: "drop_bit 6 (((ucast (csid :: u32) :: u8) AND 0x3f) OR 0xC0) = 3"
proof -
  have m: "(0x3f :: u8) = mask 6" by (simp add: mask_eq_exp_minus_1)
  have c: "(0xC0 :: u8) = push_bit 6 3" by simp
  have t: "(3 :: u8) = mask 2" by (simp add: mask_eq_exp_minus_1)
  show ?thesis
    unfolding m c
    by (rule bit_word_eqI) (auto simp add: bit_simps t)
qed

lemma bit_C0: "n < 6 \<Longrightarrow> \<not> bit (0xC0 :: u8) n"
proof -
  assume n: "n < 6"
  have "\<not> bit (push_bit 6 (3 :: u8)) n"
    using n by (simp only: bit_push_bit_iff) simp
  then show ?thesis by simp
qed

lemma hdr3_csid:
  assumes "unat (csid :: u32) < 64"
  shows "(ucast (((ucast csid :: u8) AND 0x3f) OR 0xC0) :: u32) AND 0x3f = csid"
proof -
  have m: "(0x3f :: u8) = mask 6" "(0x3f :: u32) = mask 6" by (simp_all add: mask_eq_exp_minus_1)
  show ?thesis
    unfolding m
    by (rule bit_word_eqI) (auto simp add: bit_simps dest: csid_less_bit [OF assms] bit_C0)
qed

lemma csid_ne_01:
  assumes "2 \<le> unat (csid :: u32)"
  shows "csid \<noteq> 0 \<and> csid \<noteq> 1"
  using assms by auto

section \<open>The header writer's bytes, and the reader on header bytes\<close>

lemma list_update_Cons_numeral:
  "(x # xs)[numeral k := y] = x # xs[pred_numeral k := y]"
  by (simp add: numeral_eq_Suc)

lemma list_update_Cons_1: "(x # xs)[1 := y] = x # xs[0 := y]"
  by simp

lemma len16E:
  assumes "16 \<le> length (b :: 'a list)"
  obtains x0 x1 x2 x3 x4 x5 x6 x7 x8 x9 x10 x11 x12 x13 x14 x15 rest where
    "b = x0 # x1 # x2 # x3 # x4 # x5 # x6 # x7 # x8 # x9 # x10 # x11 # x12 # x13 # x14 # x15 # rest"
proof -
  have "Suc (Suc (Suc (Suc (Suc (Suc (Suc (Suc (Suc (Suc (Suc (Suc (Suc (Suc (Suc (Suc 0)))))))))))))))
      \<le> length b"
    using assms by simp
  then have "\<exists>x0 x1 x2 x3 x4 x5 x6 x7 x8 x9 x10 x11 x12 x13 x14 x15 rest.
    b = x0 # x1 # x2 # x3 # x4 # x5 # x6 # x7 # x8 # x9 # x10 # x11 # x12 # x13 # x14 # x15 # rest"
    by (simp only: Suc_le_length_iff) blast
  then show ?thesis
    using that by blast
qed

lemma fill0_ext:
  assumes "16 \<le> length b" and "timestamp \<ge> 0xffffff"
  shows "\<exists>rest. fillChunk0Header b csid timestamp tid sid len = Some (16,
        [ucast csid AND 0x3f, 0xff, 0xff, 0xff,
         ucast (drop_bit 16 (word_of_int len :: u32)), ucast (drop_bit 8 (word_of_int len :: u32)),
         ucast (word_of_int len :: u32), tid,
         ucast sid, ucast (drop_bit 8 sid), ucast (drop_bit 16 sid), ucast (drop_bit 24 sid),
         ucast (drop_bit 24 timestamp), ucast (drop_bit 16 timestamp),
         ucast (drop_bit 8 timestamp), ucast timestamp] @ rest)"
proof -
  have nl: "\<not> timestamp < 0xffffff"
    using assms(2) by (simp add: not_less)
  from assms(1) obtain x0 x1 x2 x3 x4 x5 x6 x7 x8 x9 x10 x11 x12 x13 x14 x15 rest where
    b: "b = x0 # x1 # x2 # x3 # x4 # x5 # x6 # x7 # x8 # x9 # x10 # x11 # x12 # x13 # x14 # x15 # rest"
    by (rule len16E)
  have ff: "(ucast (drop_bit 16 (0xffffff :: u32)) :: u8) = 0xff"
    "(ucast (drop_bit 8 (0xffffff :: u32)) :: u8) = 0xff" "(ucast (0xffffff :: u32) :: u8) = 0xff"
    by simp_all
  show ?thesis
    unfolding b using assms(2) nl
    by (simp add: fillChunk0Header_def put8_def PutU24BE_def PutU32LE_def PutU32BE_def Let_def
        list_update_Cons_numeral ff del: drop_bit_numeral_minus_bit0 drop_bit_numeral_minus_bit1)
qed


lemma fill0_plain:
  assumes "16 \<le> length b" and "timestamp < 0xffffff"
  shows "\<exists>rest. fillChunk0Header b csid timestamp tid sid len = Some (12,
        [ucast csid AND 0x3f,
         ucast (drop_bit 16 timestamp), ucast (drop_bit 8 timestamp), ucast timestamp,
         ucast (drop_bit 16 (word_of_int len :: u32)), ucast (drop_bit 8 (word_of_int len :: u32)),
         ucast (word_of_int len :: u32), tid,
         ucast sid, ucast (drop_bit 8 sid), ucast (drop_bit 16 sid), ucast (drop_bit 24 sid)] @ rest)"
proof -
  have nl: "\<not> timestamp \<ge> 0xffffff"
    using assms(2) by (simp add: not_le)
  from assms(1) obtain x0 x1 x2 x3 x4 x5 x6 x7 x8 x9 x10 x11 x12 x13 x14 x15 rest where
    b: "b = x0 # x1 # x2 # x3 # x4 # x5 # x6 # x7 # x8 # x9 # x10 # x11 # x12 # x13 # x14 # x15 # rest"
    by (rule len16E)
  show ?thesis
    unfolding b using assms(2) nl
    by (simp add: fillChunk0Header_def put8_def PutU24BE_def PutU32LE_def Let_def
        list_update_Cons_numeral)
qed

lemma fill3_ext:
  assumes "16 \<le> length b" and "timestamp \<ge> 0xffffff"
  shows "\<exists>rest. fillChunk3Header b csid timestamp = Some (5,
        [(ucast csid AND 0x3f) OR 0xC0,
         ucast (drop_bit 24 timestamp), ucast (drop_bit 16 timestamp),
         ucast (drop_bit 8 timestamp), ucast timestamp] @ rest)"
proof -
  from assms(1) obtain x0 x1 x2 x3 x4 x5 x6 x7 x8 x9 x10 x11 x12 x13 x14 x15 rest where
    b: "b = x0 # x1 # x2 # x3 # x4 # x5 # x6 # x7 # x8 # x9 # x10 # x11 # x12 # x13 # x14 # x15 # rest"
    by (rule len16E)
  show ?thesis
    unfolding b using assms(2)
    by (simp add: fillChunk3Header_def put8_def PutU32BE_def Let_def list_update_Cons_numeral)
qed

lemma fill3_plain:
  assumes "16 \<le> length b" and "timestamp < 0xffffff"
  shows "\<exists>rest. fillChunk3Header b csid timestamp = Some (1, [(ucast csid AND 0x3f) OR 0xC0] @ rest)"
proof -
  have nl: "\<not> timestamp \<ge> 0xffffff"
    using assms(2) by (simp add: not_le)
  from assms(1) obtain x0 x1 x2 x3 x4 x5 x6 x7 x8 x9 x10 x11 x12 x13 x14 x15 rest where
    b: "b = x0 # x1 # x2 # x3 # x4 # x5 # x6 # x7 # x8 # x9 # x10 # x11 # x12 # x13 # x14 # x15 # rest"
    by (rule len16E)
  show ?thesis
    unfolding b using nl
    by (simp add: fillChunk3Header_def put8_def Let_def)
qed

text \<open>The reader on any header bytes.\<close>

lemma readBasicHeader_one:
  assumes "(ucast h AND 0x3f :: u32) \<noteq> 0" and "(ucast h AND 0x3f :: u32) \<noteq> 1"
  shows "readBasicHeader (h # rest) = (Inr (drop_bit 6 h, ucast h AND 0x3f, 1), rest)"
  using assms by (simp add: readBasicHeader_def ReadFull_def Let_def)

lemma readMsgHeader_0_plain:
  assumes "msgdataleft cs = 0" and "U24BE [t0, t1, t2] \<noteq> 0xffffff"
  shows "readMsgHeader 0 n cs (t0 # t1 # t2 # l0 # l1 # l2 # tid # s0 # s1 # s2 # s3 # rest) =
    (Inr (n + 11),
     Start (cs\<lparr>msghdrtype := 0, msgdatalen := U24BE [l0, l1, l2], msgtypeid := tid,
               msgsid := U32LE [s0, s1, s2, s3], hastimeext := False,
               timenow := U24BE [t0, t1, t2]\<rparr>),
     rest)"
  using assms by (simp add: readMsgHeader_0 ReadFull_def subslice_def readTimeExt_def)

lemma readMsgHeader_0_ext:
  assumes "msgdataleft cs = 0" and "U24BE [t0, t1, t2] = 0xffffff"
  shows "readMsgHeader 0 n cs
      (t0 # t1 # t2 # l0 # l1 # l2 # tid # s0 # s1 # s2 # s3 # e0 # e1 # e2 # e3 # rest) =
    (Inr (n + 15),
     Start (cs\<lparr>msghdrtype := 0, msgdatalen := U24BE [l0, l1, l2], msgtypeid := tid,
               msgsid := U32LE [s0, s1, s2, s3], hastimeext := True,
               timenow := U32BE [e0, e1, e2, e3]\<rparr>),
     rest)"
  using assms by (simp add: readMsgHeader_0 ReadFull_def subslice_def readTimeExt_def)

lemma readMsgHeader_3_ext:
  assumes "hastimeext cs" and "msghdrtype cs = 0"
  shows "readMsgHeader 3 n cs (e0 # e1 # e2 # e3 # rest) =
    (Inr (n + 4),
     (if msgdataleft cs = 0 then Start (cs\<lparr>timenow := U32BE [e0, e1, e2, e3]\<rparr>)
      else cs\<lparr>timenow := U32BE [e0, e1, e2, e3]\<rparr>),
     rest)"
  using assms by (simp add: readMsgHeader_3 readTime3_def ReadFull_def)

lemma readMsgHeader_3_plain:
  assumes "\<not> hastimeext cs" and "msghdrtype cs = 0"
  shows "readMsgHeader 3 n cs rest = (Inr n, (if msgdataleft cs = 0 then Start cs else cs), rest)"
  using assms by (simp add: readMsgHeader_3 readTime3_def)

section \<open>Headers written and read back\<close>

lemma hdr0_plain:
  "timestamp < 0xffffff \<Longrightarrow> hdr0_bytes csid timestamp tid sid len =
        [ucast csid AND 0x3f,
         ucast (drop_bit 16 timestamp), ucast (drop_bit 8 timestamp), ucast timestamp,
         ucast (drop_bit 16 (word_of_int len :: u32)), ucast (drop_bit 8 (word_of_int len :: u32)),
         ucast (word_of_int len :: u32), tid,
         ucast sid, ucast (drop_bit 8 sid), ucast (drop_bit 16 sid), ucast (drop_bit 24 sid)]"
  by (simp add: hdr0_bytes_def not_le)

lemma hdr0_ext:
  "timestamp \<ge> 0xffffff \<Longrightarrow> hdr0_bytes csid timestamp tid sid len =
        [ucast csid AND 0x3f, 0xff, 0xff, 0xff,
         ucast (drop_bit 16 (word_of_int len :: u32)), ucast (drop_bit 8 (word_of_int len :: u32)),
         ucast (word_of_int len :: u32), tid,
         ucast sid, ucast (drop_bit 8 sid), ucast (drop_bit 16 sid), ucast (drop_bit 24 sid),
         ucast (drop_bit 24 timestamp), ucast (drop_bit 16 timestamp),
         ucast (drop_bit 8 timestamp), ucast timestamp]"
  by (simp add: hdr0_bytes_def not_less)

lemma hdr3_plain:
  "timestamp < 0xffffff \<Longrightarrow> hdr3_bytes csid timestamp = [(ucast csid AND 0x3f) OR 0xC0]"
  by (simp add: hdr3_bytes_def not_le)

lemma hdr3_ext:
  "timestamp \<ge> 0xffffff \<Longrightarrow> hdr3_bytes csid timestamp =
        [(ucast csid AND 0x3f) OR 0xC0, ucast (drop_bit 24 timestamp), ucast (drop_bit 16 timestamp),
         ucast (drop_bit 8 timestamp), ucast timestamp]"
  by (simp add: hdr3_bytes_def)

lemma hdr0_length:
  "length (hdr0_bytes csid timestamp tid sid len) = (if timestamp \<ge> 0xffffff then 16 else 12)"
  by (simp add: hdr0_bytes_def not_le)

lemma hdr3_length:
  "length (hdr3_bytes csid timestamp) = (if timestamp \<ge> 0xffffff then 5 else 1)"
  by (simp add: hdr3_bytes_def)

lemma fill0_bytes:
  assumes "16 \<le> length b"
  shows "\<exists>rest. fillChunk0Header b csid timestamp tid sid len =
      Some (length (hdr0_bytes csid timestamp tid sid len), hdr0_bytes csid timestamp tid sid len @ rest)"
proof (cases "timestamp < 0xffffff")
  case True
  then have nl: "\<not> timestamp \<ge> 0xffffff" by (simp add: not_le)
  from fill0_plain [OF assms True, of csid tid sid len] show ?thesis
    unfolding hdr0_length unfolding hdr0_plain [OF True] using nl by simp
next
  case False
  then have ge: "timestamp \<ge> 0xffffff" by (simp add: not_less)
  from fill0_ext [OF assms ge, of csid tid sid len] show ?thesis
    unfolding hdr0_length unfolding hdr0_ext [OF ge] using ge by simp
qed

lemma fill3_bytes:
  assumes "16 \<le> length b"
  shows "\<exists>rest. fillChunk3Header b csid timestamp =
      Some (length (hdr3_bytes csid timestamp), hdr3_bytes csid timestamp @ rest)"
proof (cases "timestamp < 0xffffff")
  case True
  then have nl: "\<not> timestamp \<ge> 0xffffff" by (simp add: not_le)
  from fill3_plain [OF assms True, of csid] show ?thesis
    unfolding hdr3_length unfolding hdr3_plain [OF True] using nl by simp
next
  case False
  then have ge: "timestamp \<ge> 0xffffff" by (simp add: not_less)
  from fill3_ext [OF assms ge, of csid] show ?thesis
    unfolding hdr3_length unfolding hdr3_ext [OF ge] using ge by simp
qed

lemma U24BE_ff: "U24BE [0xff, 0xff, 0xff] = 0xffffff"
  by (simp add: U24BE_def)

lemma U24BE_small:
  assumes "timestamp < 0xffffff"
  shows "U24BE [ucast (drop_bit 16 timestamp), ucast (drop_bit 8 timestamp), ucast timestamp] = timestamp"
proof -
  have "timestamp < 0x1000000"
    using assms by (simp add: word_less_nat_alt)
  then show ?thesis
    by (simp only: U24BE_bytes take_bit_24_id)
qed

lemma decode_hdr0:
  assumes "2 \<le> unat csid" and "unat csid < 64" and "msgdataleft cs = 0"
  shows "readBasicHeader (hdr0_bytes csid timestamp tid sid len @ rest) =
      (Inr (0, csid, 1), tl (hdr0_bytes csid timestamp tid sid len) @ rest)
    \<and> readMsgHeader 0 1 cs (tl (hdr0_bytes csid timestamp tid sid len) @ rest) =
      (Inr (int (length (hdr0_bytes csid timestamp tid sid len))),
       Start (cs\<lparr>msghdrtype := 0, msgdatalen := take_bit 24 (word_of_int len), msgtypeid := tid,
                 msgsid := sid, hastimeext := (timestamp \<ge> 0xffffff), timenow := timestamp\<rparr>),
       rest)"
proof -
  have c: "(ucast (ucast csid AND 0x3f :: u8) AND 0x3f :: u32) = csid"
    using assms(2) by (rule hdr0_csid)
  have n01: "csid \<noteq> 0" "csid \<noteq> 1"
    using csid_ne_01 [OF assms(1)] by simp_all
  have bh: "readBasicHeader ((ucast csid AND 0x3f) # xs) = (Inr (0, csid, 1), xs)" for xs
  proof -
    have a: "(ucast (ucast csid AND 0x3f :: u8) AND 0x3f :: u32) \<noteq> 0"
      "(ucast (ucast csid AND 0x3f :: u8) AND 0x3f :: u32) \<noteq> 1"
      unfolding c by (rule n01)+
    show ?thesis
      unfolding readBasicHeader_one [OF a] c hdr0_fmt by (rule refl)
  qed
  show ?thesis
  proof (cases "timestamp < 0xffffff")
    case True
    then have nl: "\<not> timestamp \<ge> 0xffffff" by (simp add: not_le)
    have tne: "timestamp \<noteq> 0xffffff"
      using True by simp
    have ne: "U24BE [ucast (drop_bit 16 timestamp), ucast (drop_bit 8 timestamp), ucast timestamp] \<noteq> 0xffffff"
      unfolding U24BE_small [OF True] by (rule tne)
    note h = hdr0_plain [OF True, of csid tid sid len]
    show ?thesis
      unfolding h
      apply (simp only: append_Cons append_Nil list.sel bh readMsgHeader_0_plain [OF assms(3) ne])
      apply (simp only: U24BE_small [OF True])
      apply (simp only: U24BE_bytes U32LE_bytes)
      apply (simp add: nl)
      done
  next
    case False
    then have ge: "timestamp \<ge> 0xffffff" by (simp add: not_less)
    note h = hdr0_ext [OF ge, of csid tid sid len]
    show ?thesis
      unfolding h
      apply (simp only: append_Cons append_Nil list.sel bh readMsgHeader_0_ext [OF assms(3) U24BE_ff])
      apply (simp only: U24BE_bytes U32LE_bytes U32BE_bytes)
      apply (simp add: ge)
      done
  qed
qed

lemma decode_hdr3:
  assumes "2 \<le> unat csid" and "unat csid < 64"
    and "msghdrtype cs = 0" and "hastimeext cs = (timestamp \<ge> 0xffffff)" and "timenow cs = timestamp"
  shows "readBasicHeader (hdr3_bytes csid timestamp @ rest) =
      (Inr (3, csid, 1), tl (hdr3_bytes csid timestamp) @ rest)
    \<and> readMsgHeader 3 1 cs (tl (hdr3_bytes csid timestamp) @ rest) =
      (Inr (int (length (hdr3_bytes csid timestamp))),
       (if msgdataleft cs = 0 then Start cs else cs), rest)"
proof -
  have c: "(ucast ((ucast csid AND 0x3f :: u8) OR 0xC0) AND 0x3f :: u32) = csid"
    using assms(2) by (rule hdr3_csid)
  have n01: "csid \<noteq> 0" "csid \<noteq> 1"
    using csid_ne_01 [OF assms(1)] by simp_all
  have bh: "readBasicHeader (((ucast csid AND 0x3f) OR 0xC0) # xs) = (Inr (3, csid, 1), xs)" for xs
  proof -
    have a: "(ucast ((ucast csid AND 0x3f :: u8) OR 0xC0) AND 0x3f :: u32) \<noteq> 0"
      "(ucast ((ucast csid AND 0x3f :: u8) OR 0xC0) AND 0x3f :: u32) \<noteq> 1"
      unfolding c by (rule n01)+
    show ?thesis
      unfolding readBasicHeader_one [OF a] c hdr3_fmt by (rule refl)
  qed
  show ?thesis
  proof (cases "timestamp < 0xffffff")
    case True
    then have nl: "\<not> timestamp \<ge> 0xffffff" by (simp add: not_le)
    have ne: "\<not> hastimeext cs"
      using assms(4) nl by simp
    note h = hdr3_plain [OF True, of csid]
    show ?thesis
      unfolding h
      by (simp only: append_Cons append_Nil list.sel bh readMsgHeader_3_plain [OF ne assms(3)])
        simp
  next
    case False
    then have ge: "timestamp \<ge> 0xffffff" by (simp add: not_less)
    have e: "hastimeext cs"
      using assms(4) ge by simp
    note h = hdr3_ext [OF ge, of csid]
    have same: "cs\<lparr>timenow := timestamp\<rparr> = cs"
      using assms(5) by simp
    show ?thesis
      unfolding h
      apply (simp only: append_Cons append_Nil list.sel bh readMsgHeader_3_ext [OF e assms(3)])
      apply (simp only: U32BE_bytes same)
      apply simp
      done
  qed
qed

lemma unat_word_of_int_small:
  assumes "0 \<le> len" and "len < 2 ^ 24"
  shows "unat (word_of_int len :: u32) = nat len"
proof -
  have w: "(word_of_int len :: u32) = of_nat (nat len)"
    using assms(1) by (rule word_of_int_nat)
  have "nat len < 2 ^ 24"
    using assms by (simp add: nat_less_iff)
  then have "nat len < 2 ^ 32"
    by simp
  then show ?thesis
    unfolding w by (simp add: unat_of_nat)
qed

lemma take_bit_24_word_of_int:
  assumes "0 \<le> len" and "len < 2 ^ 24"
  shows "take_bit 24 (word_of_int len :: u32) = word_of_int len"
proof -
  have "nat len < 2 ^ 24"
    using assms by (simp add: nat_less_iff)
  then have "(word_of_int len :: u32) < 0x1000000"
    by (simp add: word_less_nat_alt unat_word_of_int_small [OF assms])
  then show ?thesis
    by (rule take_bit_24_id)
qed

lemma readPayload_whole:
  assumes "msgdataleft cs1 = msgdatalen cs1"
    and "length (msgdata cs1) = unat (msgdatalen cs1)"
    and "length payload = unat (msgdatalen cs1)"
    and "int (unat (msgdatalen cs1)) \<le> rmax"
  shows "readPayload rmax n cs1 (payload @ rest) =
    (Inr (n + int (length payload)), cs1\<lparr>msgdata := payload, msgdataleft := 0\<rparr>, rest)"
  using assms by (simp add: readPayload_def Let_def ReadFull_def)

lemma decodeChunk_single:
  assumes csid: "2 \<le> unat csid" "unat csid < 64"
    and idle: "msgdataleft (case readcsmap self csid of None \<Rightarrow> zero_chunkStream | Some c \<Rightarrow> c) = 0"
    and inp: "bufr self = hdr0_bytes csid timestamp tid sid len @ payload @ rest"
    and len: "0 \<le> len" "len < 2 ^ 24" "int (length payload) = len" "len \<le> readMaxChunkSize self"
  shows "\<exists>cs self1.
      decodeChunk self =
        (Inr (csid, int (length (hdr0_bytes csid timestamp tid sid len)) + len, cs), self1)
    \<and> timenow cs = timestamp \<and> msgsid cs = sid \<and> msgtypeid cs = tid
    \<and> msgdata cs = payload \<and> msgdataleft cs = 0 \<and> bufr self1 = rest"
proof -
  define cs0 where "cs0 = (case readcsmap self csid of None \<Rightarrow> zero_chunkStream | Some c \<Rightarrow> c)"
  define cs1 where "cs1 = Start (cs0\<lparr>msghdrtype := 0, msgdatalen := take_bit 24 (word_of_int len),
      msgtypeid := tid, msgsid := sid, hastimeext := (timestamp \<ge> 0xffffff), timenow := timestamp\<rparr>)"
  have z: "msgdataleft cs0 = 0"
    using idle by (simp add: cs0_def)
  note d = decode_hdr0 [OF csid z, of timestamp tid sid len "payload @ rest", folded cs1_def]
  have u: "unat (msgdatalen cs1) = nat len"
    by (simp add: cs1_def take_bit_24_word_of_int [OF len(1,2)] unat_word_of_int_small [OF len(1,2)])
  have lp: "length payload = nat len"
    using len(3) by simp
  have p: "readPayload (readMaxChunkSize self) n cs1 (payload @ rest) =
      (Inr (n + int (length payload)), cs1\<lparr>msgdata := payload, msgdataleft := 0\<rparr>, rest)" for n
  proof (rule readPayload_whole)
    show "msgdataleft cs1 = msgdatalen cs1"
      by (simp add: cs1_def)
    show "length (msgdata cs1) = unat (msgdatalen cs1)"
      by (simp add: cs1_def)
    show "length payload = unat (msgdatalen cs1)"
      by (simp only: u lp)
    show "int (unat (msgdatalen cs1)) \<le> readMaxChunkSize self"
      using len(1,4) by (simp only: u)
  qed
  have "decodeChunk self =
      (Inr (csid, int (length (hdr0_bytes csid timestamp tid sid len)) + len,
            cs1\<lparr>msgdata := payload, msgdataleft := 0\<rparr>),
       self\<lparr>readcsmap := (readcsmap self)(csid \<mapsto> cs1\<lparr>msgdata := payload, msgdataleft := 0\<rparr>),
            bufr := rest\<rparr>)"
    unfolding decodeChunk_def inp
    by (simp add: d [unfolded append_assoc] cs0_def [symmetric] p len(3))
  then show ?thesis
    by (simp add: cs1_def)
qed

section \<open>Marshalling the decoder configuration record\<close>

lemma fold_len:
  "fold (\<lambda>x n. n + (2 + length x)) xs n = n + sum_list (map (\<lambda>x. 2 + length x) xs)"
  by (induction xs arbitrary: n) simp_all

lemma Len_sum:
  "Len self = 7 + sum_list (map (\<lambda>sps. 2 + length sps) (SPS self))
                + sum_list (map (\<lambda>pps. 2 + length pps) (PPS self))"
  unfolding Len_def Let_def fold_len by (rule refl)

lemma put8_ok:
  "i < length b \<Longrightarrow> \<exists>b'. put8 i v b = Some b' \<and> length b' = length b"
  by (simp add: put8_def)

lemma PutU16BE_ok:
  "n + 1 < length b \<Longrightarrow> \<exists>b'. PutU16BE n v b = Some b' \<and> length b' = length b"
  by (simp add: PutU16BE_def)

lemma PutU32BE_ok:
  "n + 3 < length b \<Longrightarrow> \<exists>b'. PutU32BE n v b = Some b' \<and> length b' = length b"
  by (simp add: PutU32BE_def)

lemma copy_at_ok:
  "n + length src \<le> length b \<Longrightarrow> \<exists>b'. copy_at n src b = Some b' \<and> length b' = length b"
  by (simp add: copy_at_def)

lemma marshalNalus_ok:
  "n + sum_list (map (\<lambda>x. 2 + length x) xs) \<le> length b \<Longrightarrow>
   \<exists>b'. marshalNalus xs n b = Some (n + sum_list (map (\<lambda>x. 2 + length x) xs), b')
        \<and> length b' = length b"
proof (induction xs arbitrary: n b)
  case Nil
  then show ?case by simp
next
  case (Cons x xs)
  define T where "T = sum_list (map (\<lambda>x. 2 + length x) xs)"
  have le: "n + 2 + length x + T \<le> length b"
    using Cons.prems by (simp add: T_def)
  have "n + 1 < length b"
    using le by simp
  from PutU16BE_ok [OF this] obtain b1 where
    p: "PutU16BE n (word_of_nat (length x)) b = Some b1" and l1: "length b1 = length b"
    by blast
  have "n + 2 + length x \<le> length b1"
    using le by (simp add: l1)
  from copy_at_ok [OF this] obtain b2 where
    c: "copy_at (n + 2) x b1 = Some b2" and l2: "length b2 = length b"
    unfolding l1 by blast
  have "n + 2 + length x + sum_list (map (\<lambda>x. 2 + length x) xs) \<le> length b2"
    using le by (simp add: l2 T_def)
  from Cons.IH [OF this] obtain b' where
    r: "marshalNalus xs (n + 2 + length x) b2 = Some (n + 2 + length x + T, b')"
    and l': "length b' = length b"
    unfolding T_def l2 by blast
  have "marshalNalus (x # xs) n b = Some (n + 2 + length x + T, b')"
    by (simp only: marshalNalus.simps p c r option.case)
  moreover have "n + sum_list (map (\<lambda>x. 2 + length x) (x # xs)) = n + 2 + length x + T"
    by (simp add: T_def)
  ultimately show ?case
    using l' by (simp only:) blast
qed

lemma Marshal_unfold:
  "Marshal self b =
     Option.bind (put8 0 1 b) (\<lambda>b.
     Option.bind (put8 1 (AVCProfileIndication self) b) (\<lambda>b.
     Option.bind (PutU32BE 2 (ProfileCompatibility self) b) (\<lambda>b.
     Option.bind (put8 6 (AVCLevelIndication self) b) (\<lambda>b.
     Option.bind (marshalNalus (SPS self) 6 b) (\<lambda>(n, b).
     Option.bind (put8 n (word_of_nat (length (PPS self))) b) (\<lambda>b.
     marshalNalus (PPS self) (n + 1) b))))))"
  by (simp add: Marshal_def Let_def numeral_2_eq_2)


section \<open>The six bits of the chunk stream id the writers keep\<close>

lemma ucast_mask6: "(ucast (csid AND 0x3f :: u32) :: u8) AND 0x3f = ucast csid AND 0x3f"
  by (rule bit_word_eqI) (auto simp add: bit_simps)

lemma hdr0_bytes_mask:
  "hdr0_bytes (csid AND 0x3f) timestamp tid sid len = hdr0_bytes csid timestamp tid sid len"
  by (simp only: hdr0_bytes_def ucast_mask6)

lemma hdr3_bytes_mask: "hdr3_bytes (csid AND 0x3f) timestamp = hdr3_bytes csid timestamp"
  by (simp only: hdr3_bytes_def ucast_mask6)

lemma unat_mask6_less: "unat (csid AND 0x3f :: u32) < 64"
proof -
  have "csid AND 0x3f \<le> 0x3f"
    by (rule word_and_le1)
  then show ?thesis
    by (simp add: word_le_nat_alt)
qed

lemma mask6_id:
  assumes "unat (csid :: u32) < 64"
  shows "csid AND 0x3f = csid"
proof -
  have m: "(0x3f :: u32) = mask 6"
    by (simp add: mask_eq_exp_minus_1)
  have "csid < 2 ^ 6"
    using assms by (simp add: word_less_nat_alt)
  then show ?thesis
    unfolding m by (rule less_mask_eq)
qed

text \<open>
  C10. The format type \<open>readChunk\<close> computes as the basic-header byte shifted right by
  6 is below 4 for every byte, so the default branch of the switch on it is never taken:
  neither the message-header step on such a format type, nor the decoding of a chunk,
  nor \<open>readChunk\<close> itself ever returns the error
  \<open>rtmp: invalid chunk msg header type\<close>, on any input, state and collaborators.
\<close>

theorem hdr_type_default_unreachable:
  "unat (drop_bit 6 (header :: u8)) < 4
   \<and> fst (readMsgHeader (drop_bit 6 header) n cs inp) \<noteq> Inl (ErrHdrType t)
   \<and> fst (decodeChunk self) \<noteq> Inl (ErrHdrType t)
   \<and> fst (readChunk ReadRegister writeRtmpMsgAck hands self) \<noteq> Some (ErrHdrType t)"
proof -
  have "fst (readMsgHeader (drop_bit 6 header) n cs inp) \<noteq> Inl (ErrHdrType t)"
  proof
    assume a: "fst (readMsgHeader (drop_bit 6 header) n cs inp) = Inl (ErrHdrType t)"
    obtain r cs' inp' where m: "readMsgHeader (drop_bit 6 header) n cs inp = (r, cs', inp')"
      by (cases "readMsgHeader (drop_bit 6 header) n cs inp")
    with a have "readMsgHeader (drop_bit 6 header) n cs inp = (Inl (ErrHdrType t), cs', inp')"
      by simp
    from readMsgHeader_err [OF this fmt_cases] show False
      by simp
  qed
  moreover have "fst (decodeChunk self) \<noteq> Inl (ErrHdrType t)"
  proof
    assume a: "fst (decodeChunk self) = Inl (ErrHdrType t)"
    then have "decodeChunk self = (Inl (ErrHdrType t), snd (decodeChunk self))"
      by (simp add: prod_eq_iff)
    from decodeChunk_err [OF this] show False
      by simp
  qed
  moreover have "fst (readChunk ReadRegister writeRtmpMsgAck hands self) \<noteq> Some (ErrHdrType t)"
  proof
    assume a: "fst (readChunk ReadRegister writeRtmpMsgAck hands self) = Some (ErrHdrType t)"
    obtain e s c where r: "readChunk ReadRegister writeRtmpMsgAck hands self = (e, s, c)"
      by (cases "readChunk ReadRegister writeRtmpMsgAck hands self")
    with a have "readChunk ReadRegister writeRtmpMsgAck hands self = (Some (ErrHdrType t), s, c)"
      by simp
    from readChunk_err [OF this] show False
      by simp
  qed
  ultimately show ?thesis
    using fmt_less [of header] by simp
qed


text \<open>
  C5. Basic-header decoding. On every input, \<open>readChunk\<close> first reads one byte \<open>h\<close>
  (and ends with \<open>io.EOF\<close> when there is none); the format type is its top 2 bits,
  \<open>h div 64\<close>, and the low chunk stream id its low 6 bits, \<open>h mod 64\<close>. When the
  low id is 0, one further byte \<open>b1\<close> is read and the chunk stream id is \<open>b1 + 64\<close>;
  when it is 1, two further bytes are read and the id is \<open>256 * b1 + b2 + 64\<close>;
  otherwise the id is the low id, and no further byte is read.
\<close>

theorem basic_header_decoding:
  "readBasicHeader [] = (Inl EOF, [])
   \<and> unat (drop_bit 6 h) = unat h div 64
   \<and> unat (ucast h AND 0x3f :: u32) = unat h mod 64
   \<and> (unat h mod 64 = 0 \<longrightarrow>
        readBasicHeader [h] = (Inl EOF, [])
      \<and> readBasicHeader (h # b1 # rest) = (Inr (drop_bit 6 h, ucast b1 + 64, 2), rest)
      \<and> unat (ucast b1 + 64 :: u32) = unat b1 + 64)
   \<and> (unat h mod 64 = 1 \<longrightarrow>
        readBasicHeader [h] = (Inl EOF, [])
      \<and> readBasicHeader [h, b1] = (Inl ErrUnexpectedEOF, [])
      \<and> readBasicHeader (h # b1 # b2 # rest) = (Inr (drop_bit 6 h, ucast (U16BE [b1, b2]) + 64, 3), rest)
      \<and> unat (ucast (U16BE [b1, b2]) + 64 :: u32) = 256 * unat b1 + unat b2 + 64)
   \<and> (2 \<le> unat h mod 64 \<longrightarrow>
        readBasicHeader (h # rest) = (Inr (drop_bit 6 h, ucast h AND 0x3f, 1), rest))"
proof -
  have z: "unat h mod 64 = 0 \<Longrightarrow> (ucast h AND 0x3f :: u32) = 0"
    by (simp add: csid_low_eq_0)
  have o: "unat h mod 64 = 1 \<Longrightarrow> (ucast h AND 0x3f :: u32) = 1"
    by (simp add: csid_low_eq_1)
  have t: "2 \<le> unat h mod 64 \<Longrightarrow> (ucast h AND 0x3f :: u32) \<noteq> 0 \<and> (ucast h AND 0x3f :: u32) \<noteq> 1"
    by (simp add: csid_low_eq_0 csid_low_eq_1)
  show ?thesis
    using z o t
    by (simp add: readBasicHeader_def ReadFull_def Let_def fmt_unat csid_low_unat csid2_unat
        csid3_unat U16BE_unat)
qed

theorem basic_header_decoding_witness:
  "readBasicHeader [0x40, 5, 9] = (Inr (1, 69, 2), [9])
   \<and> readBasicHeader [0x81, 1, 2, 9] = (Inr (2, 322, 3), [9])
   \<and> readBasicHeader [0x81, 1] = (Inl ErrUnexpectedEOF, [])
   \<and> readBasicHeader [0xC3, 9] = (Inr (3, 3, 1), [9])"
proof -
  have u: "(ucast (U16BE [1, 2]) + 64 :: u32) = 322"
    by (simp add: U16BE_def)
  show ?thesis
    using basic_header_decoding [of "0x40" 5 "[9]"]
      basic_header_decoding [of "0x81" 1 "[9]" 2]
      basic_header_decoding [of "0xC3" _ "[9]"]
    by (simp add: u)
qed

text \<open>
  C6. A type-0 chunk header starts a new message, and it is a protocol error when the
  chunk stream of the chunk's id has \<open>msgdataleft \<noteq> 0\<close>: \<open>readChunk\<close> then returns
  the error \<open>rtmp: chunk msgdataleft=... invalid\<close>, having read the basic header only,
  with the chunk stream as it was and no call to a handler or any other collaborator.
  With \<open>msgdataleft = 0\<close> (or no chunk stream yet), a type-0 header that is read
  in full sets the length, type id and stream id of the new message from its bytes and
  starts it: \<open>msgdataleft = msgdatalen\<close> and a fresh buffer of that length.
\<close>

theorem fmt0_protocol_error:
  assumes "readBasicHeader (bufr self) = (Inr (0, csid, n), inp)"
    and "cs = (case readcsmap self csid of None \<Rightarrow> zero_chunkStream | Some c \<Rightarrow> c)"
  shows "(msgdataleft cs \<noteq> 0 \<longrightarrow>
            readChunk ReadRegister writeRtmpMsgAck hands self =
              (Some (ErrMsgDataLeft (msgdataleft cs)), self\<lparr>bufr := inp\<rparr>, []))
       \<and> (msgdataleft cs = 0 \<longrightarrow>
            (\<forall>n' cs' inp'. readMsgHeader 0 n cs inp = (Inr n', cs', inp') \<longrightarrow>
               msgdatalen cs' = U24BE (subslice 3 6 (take 11 inp))
             \<and> msgtypeid cs' = inp ! 6
             \<and> msgsid cs' = U32LE (subslice 7 11 (take 11 inp))
             \<and> msghdrtype cs' = 0
             \<and> msgdataleft cs' = msgdatalen cs'
             \<and> msgdata cs' = replicate (unat (msgdatalen cs')) 0))"
proof (intro conjI impI allI)
  assume left: "msgdataleft cs \<noteq> 0"
  then have some: "readcsmap self csid = Some cs"
    using assms(2) by (cases "readcsmap self csid") (simp_all add: zero_chunkStream_def)
  then have m: "(readcsmap self)(csid \<mapsto> cs) = readcsmap self"
    by (rule map_upd_triv)
  have "decodeChunk self = (Inl (ErrMsgDataLeft (msgdataleft cs)), self\<lparr>bufr := inp\<rparr>)"
    using assms(1) left by (simp add: decodeChunk_def readMsgHeader_0 some m)
  then show "readChunk ReadRegister writeRtmpMsgAck hands self =
      (Some (ErrMsgDataLeft (msgdataleft cs)), self\<lparr>bufr := inp\<rparr>, [])"
    by (simp add: readChunk_def)
next
  fix n' cs' inp'
  assume z: "msgdataleft cs = 0" and r: "readMsgHeader 0 n cs inp = (Inr n', cs', inp')"
  from r z have k: "11 \<le> length inp"
    by (auto simp add: readMsgHeader_0 ReadFull_def split: if_splits)
  from r z k have
    "msgdatalen cs' = U24BE (subslice 3 6 (take 11 inp))
     \<and> msgtypeid cs' = inp ! 6
     \<and> msgsid cs' = U32LE (subslice 7 11 (take 11 inp))
     \<and> msghdrtype cs' = 0
     \<and> msgdataleft cs' = msgdatalen cs'
     \<and> msgdata cs' = replicate (unat (msgdatalen cs')) 0"
    by (auto simp add: readMsgHeader_0 ReadFull_def readTimeExt_def
        split: if_splits prod.splits option.splits)
  then show "msgdatalen cs' = U24BE (subslice 3 6 (take 11 inp))"
    and "msgtypeid cs' = inp ! 6"
    and "msgsid cs' = U32LE (subslice 7 11 (take 11 inp))"
    and "msghdrtype cs' = 0"
    and "msgdataleft cs' = msgdatalen cs'"
    and "msgdata cs' = replicate (unat (msgdatalen cs')) 0"
    by simp_all
qed

theorem fmt0_protocol_error_witness:
  "(let self = (NewSesion [3, 0,0,5, 0,0,2, 8, 1,0,0,0, 0xAA, 0xBB] ())
        \<lparr>readcsmap := [3 \<mapsto> zero_chunkStream\<lparr>msgdatalen := 4, msgdataleft := 2,
                                             msgdata := [1, 2, 0, 0]\<rparr>]\<rparr>
    in readChunk (\<lambda>s. s) (\<lambda>v s. (None, s)) (\<lambda>t. None) self =
         (Some (ErrMsgDataLeft 2), self\<lparr>bufr := [0,0,5, 0,0,2, 8, 1,0,0,0, 0xAA, 0xBB]\<rparr>, []))
   \<and> (let cs' = fst (snd (readMsgHeader 0 1 zero_chunkStream [0,0,5, 0,0,2, 8, 1,0,0,0, 0xAA, 0xBB]))
      in msgdatalen cs' = 2 \<and> msgdataleft cs' = 2 \<and> msgdata cs' = [0, 0]
       \<and> msgtypeid cs' = 8 \<and> msgsid cs' = 1)"
proof -
  define inp :: bytes where "inp = [0,0,5, 0,0,2, 8, 1,0,0,0, 0xAA, 0xBB]"
  define cs where "cs = zero_chunkStream\<lparr>msgdatalen := 4, msgdataleft := 2, msgdata := [1, 2, 0, 0]\<rparr>"
  define self where "self = (NewSesion (3 # inp) ())\<lparr>readcsmap := [3 \<mapsto> cs]\<rparr>"
  have b: "readBasicHeader (bufr self) = (Inr (0, 3, 1), inp)"
    by (simp add: self_def NewSesion_def readBasicHeader_def ReadFull_def)
  have c: "cs = (case readcsmap self 3 of None \<Rightarrow> zero_chunkStream | Some c \<Rightarrow> c)"
    by (simp add: self_def)
  have l: "msgdataleft cs = 2"
    by (simp add: cs_def)
  have one: "readChunk (\<lambda>s. s) (\<lambda>v s. (None, s)) (\<lambda>t. None) self =
      (Some (ErrMsgDataLeft 2), self\<lparr>bufr := inp\<rparr>, [])"
    using fmt0_protocol_error [OF b c, of "\<lambda>s. s" "\<lambda>v s. (None, s)" "\<lambda>t. None"]
    by (simp add: l)
  define self0 where "self0 = NewSesion (3 # inp) ()"
  have b0: "readBasicHeader (bufr self0) = (Inr (0, 3, 1), inp)"
    by (simp add: self0_def NewSesion_def readBasicHeader_def ReadFull_def)
  have c0: "zero_chunkStream = (case readcsmap self0 3 of None \<Rightarrow> zero_chunkStream | Some c \<Rightarrow> c)"
    by (simp add: self0_def NewSesion_def)
  obtain r cs' inp' where m: "readMsgHeader 0 1 zero_chunkStream inp = (r, cs', inp')"
    by (cases "readMsgHeader 0 1 zero_chunkStream inp")
  have "r = Inr 12"
    using m by (simp add: inp_def readMsgHeader_0 ReadFull_def readTimeExt_def zero_chunkStream_def
        subslice_def U24BE_def)
  with m have m': "readMsgHeader 0 1 zero_chunkStream inp = (Inr 12, cs', inp')"
    by simp
  have rep: "replicate 2 (0 :: u8) = [0, 0]"
    by (simp add: numeral_2_eq_2)
  have z: "msgdataleft zero_chunkStream = 0"
    by (simp add: zero_chunkStream_def)
  have two: "msgdatalen cs' = 2 \<and> msgdataleft cs' = 2 \<and> msgdata cs' = [0, 0]
      \<and> msgtypeid cs' = 8 \<and> msgsid cs' = 1"
    using fmt0_protocol_error [OF b0 c0, of "\<lambda>s. s" "\<lambda>v s. (None, s)" "\<lambda>t. None"] m' z
    by (simp add: inp_def subslice_def U24BE_def U32LE_def rep)
  show ?thesis
    using one two m unfolding Let_def self_def cs_def inp_def by simp
qed



text \<open>
  C7. The acknowledgement window. When a chunk has been decoded and its message, if
  complete, handled without error, \<open>readChunk\<close> adds \<open>n\<close> to the counter \<open>ackn\<close>,
  and \<open>n\<close> is the number of bytes the chunk took from the connection. If then
  \<open>readAckSize \<noteq> 0\<close> and the counter exceeds \<open>readAckSize\<close>, it calls
  \<open>writeRtmpMsgAck\<close> with the counter, and sets the counter to 0 when that call
  returns no error; otherwise it calls nothing and keeps the counter. Conversely every
  call of \<open>writeRtmpMsgAck\<close> that \<open>readChunk\<close> makes is of this kind, so with
  \<open>readAckSize = 0\<close> there is none.
\<close>

theorem ack_window:
  "(\<forall>csid n cs self1 self2 calls.
      decodeChunk self = (Inr (csid, n, cs), self1) \<longrightarrow>
      deliver ReadRegister hands cs self1 = (None, self2, calls) \<longrightarrow>
        n = int (length (bufr self)) - int (length (bufr self1))
      \<and> (let counter = ackn self2 + word_of_int n
         in if readAckSize self2 \<noteq> 0 \<and> counter > readAckSize self2 then
              (case writeRtmpMsgAck counter (self2\<lparr>ackn := counter\<rparr>) of
                 (None, self3) \<Rightarrow>
                   readChunk ReadRegister writeRtmpMsgAck hands self =
                     (None, self3\<lparr>ackn := 0\<rparr>, calls @ [CallWriteAck counter])
               | (Some e, self3) \<Rightarrow>
                   readChunk ReadRegister writeRtmpMsgAck hands self =
                     (Some (ErrWrite e), self3, calls @ [CallWriteAck counter]))
            else readChunk ReadRegister writeRtmpMsgAck hands self =
                   (None, self2\<lparr>ackn := counter\<rparr>, calls)))
   \<and> (\<forall>v. CallWriteAck v \<in> set (snd (snd (readChunk ReadRegister writeRtmpMsgAck hands self))) \<longrightarrow>
        (\<exists>csid n cs self1 self2 calls.
            decodeChunk self = (Inr (csid, n, cs), self1)
          \<and> deliver ReadRegister hands cs self1 = (None, self2, calls)
          \<and> readAckSize self2 \<noteq> 0
          \<and> v = ackn self2 + word_of_int n
          \<and> v > readAckSize self2))"
proof (intro conjI allI impI)
  fix csid n cs self1 self2 calls
  assume d: "decodeChunk self = (Inr (csid, n, cs), self1)"
    and dl: "deliver ReadRegister hands cs self1 = (None, self2, calls)"
  show "n = int (length (bufr self)) - int (length (bufr self1))"
    using d by (rule decodeChunk_count)
  show "let counter = ackn self2 + word_of_int n
         in if readAckSize self2 \<noteq> 0 \<and> counter > readAckSize self2 then
              (case writeRtmpMsgAck counter (self2\<lparr>ackn := counter\<rparr>) of
                 (None, self3) \<Rightarrow>
                   readChunk ReadRegister writeRtmpMsgAck hands self =
                     (None, self3\<lparr>ackn := 0\<rparr>, calls @ [CallWriteAck counter])
               | (Some e, self3) \<Rightarrow>
                   readChunk ReadRegister writeRtmpMsgAck hands self =
                     (Some (ErrWrite e), self3, calls @ [CallWriteAck counter]))
            else readChunk ReadRegister writeRtmpMsgAck hands self =
                   (None, self2\<lparr>ackn := counter\<rparr>, calls)"
  proof -
    have rc: "readChunk ReadRegister writeRtmpMsgAck hands self =
        (case ackWindow writeRtmpMsgAck n self2 of (err, s, c') \<Rightarrow> (err, s, calls @ c'))"
      using d dl by (simp add: readChunk_def)
    show ?thesis
      unfolding rc
      by (simp add: ackWindow_def Let_def split: prod.split option.split)
  qed
next
  fix v
  assume v: "CallWriteAck v \<in> set (snd (snd (readChunk ReadRegister writeRtmpMsgAck hands self)))"
  obtain res self1 where p: "decodeChunk self = (res, self1)"
    by (cases "decodeChunk self")
  show "\<exists>csid n cs self1 self2 calls.
            decodeChunk self = (Inr (csid, n, cs), self1)
          \<and> deliver ReadRegister hands cs self1 = (None, self2, calls)
          \<and> readAckSize self2 \<noteq> 0
          \<and> v = ackn self2 + word_of_int n
          \<and> v > readAckSize self2"
  proof (cases res)
    case (Inl e)
    with v p show ?thesis
      by (simp add: readChunk_def)
  next
    case (Inr t)
    obtain csid n cs where t: "t = (csid, n, cs)" by (cases t)
    have d: "decodeChunk self = (Inr (csid, n, cs), self1)"
      using p Inr t by simp
    obtain e2 self2 c2 where dl: "deliver ReadRegister hands cs self1 = (e2, self2, c2)"
      by (cases "deliver ReadRegister hands cs self1")
    have nc: "CallWriteAck v \<notin> set c2"
      using deliver_calls [OF dl] by blast
    show ?thesis
    proof (cases e2)
      case (Some a)
      with v d dl nc show ?thesis
        by (simp add: readChunk_def)
    next
      case None
      obtain e3 s3 c3 where a: "ackWindow writeRtmpMsgAck n self2 = (e3, s3, c3)"
        by (cases "ackWindow writeRtmpMsgAck n self2")
      have "CallWriteAck v \<in> set c3"
        using v d dl None a nc by (simp add: readChunk_def)
      with ackWindow_calls [OF a]
      have "readAckSize self2 \<noteq> 0 \<and> v = ackn self2 + word_of_int n \<and> v > readAckSize self2"
        by blast
      with d dl None show ?thesis
        by blast
    qed
  qed
qed

theorem ack_window_witness:
  "(let RR = (\<lambda>s :: Session. s);
        WA = (\<lambda>v (s :: Session). (None, s));
        H = (\<lambda>t. Some (\<lambda>(s :: Session) ts sid tid d. (None, s)));
        inp = [3, 0,0,5, 0,0,2, 8, 1,0,0,0, 0xAA, 0xBB, 9];
        s0 = (NewSesion inp ())\<lparr>ackn := 90, readAckSize := 100\<rparr>;
        s1 = (NewSesion inp ())\<lparr>ackn := 90, readAckSize := 0\<rparr>;
        s2 = (NewSesion inp ())\<lparr>ackn := 80, readAckSize := 100\<rparr>
    in snd (snd (readChunk RR WA H s0)) =
         [CallReadRegister, CallHandler 5 1 8 [0xAA, 0xBB], CallWriteAck 104]
     \<and> ackn (fst (snd (readChunk RR WA H s0))) = 0
     \<and> CallWriteAck 104 \<notin> set (snd (snd (readChunk RR WA H s1)))
     \<and> ackn (fst (snd (readChunk RR WA H s1))) = 104
     \<and> snd (snd (readChunk RR WA H s2)) = [CallReadRegister, CallHandler 5 1 8 [0xAA, 0xBB]]
     \<and> ackn (fst (snd (readChunk RR WA H s2))) = 94)"
proof -
  define RR where "RR = (\<lambda>s :: Session. s)"
  define WA where "WA = (\<lambda>(v :: u32) (s :: Session). (None :: string option, s))"
  define H :: "unit RtmpMsgHandle" where "H = (\<lambda>t. Some (\<lambda>(s :: Session) ts sid tid d. (None, s)))"
  define inp :: bytes where "inp = [3, 0,0,5, 0,0,2, 8, 1,0,0,0, 0xAA, 0xBB, 9]"
  define cs where "cs = \<lparr>timenow = 5, timedelta = 0, hastimeext = False, msgsid = 1, msgtypeid = 8,
      msgdatalen = 2, msgdataleft = 0, msghdrtype = 0, msgdata = [0xAA, 0xBB]\<rparr>"
  define S where "S = (\<lambda>a w. (NewSesion inp ())\<lparr>ackn := a, readAckSize := w\<rparr>)"
  have rep: "replicate 2 (0 :: u8) = [0, 0]"
    by (simp add: numeral_2_eq_2)
  have b: "readBasicHeader (bufr (S a w)) = (Inr (0, 3, 1), tl inp)" for a w
    by (simp add: S_def inp_def NewSesion_def readBasicHeader_def ReadFull_def)
  have d: "decodeChunk (S a w) = (Inr (3, 14, cs), (S a w)\<lparr>readcsmap := [3 \<mapsto> cs], bufr := [9]\<rparr>)" for a w
    unfolding decodeChunk_def b
    by (simp add: S_def inp_def NewSesion_def readMsgHeader_0 ReadFull_def readTimeExt_def
        zero_chunkStream_def subslice_def U24BE_def U32LE_def Start_def readPayload_def rep cs_def)
  have dl: "deliver RR H cs ((S a w)\<lparr>readcsmap := [3 \<mapsto> cs], bufr := [9]\<rparr>) =
      (None, (S a w)\<lparr>readcsmap := [3 \<mapsto> cs], bufr := [9]\<rparr>,
       [CallReadRegister, CallHandler 5 1 8 [0xAA, 0xBB]])" for a w
    by (simp add: deliver_def RR_def H_def cs_def)
  note t = ack_window [of _ RR H WA, THEN conjunct1, rule_format, OF d dl, THEN conjunct2]
  have r0: "readChunk RR WA H (S 90 100) =
      (None, (S 90 100)\<lparr>readcsmap := [3 \<mapsto> cs], bufr := [9], ackn := 0\<rparr>,
       [CallReadRegister, CallHandler 5 1 8 [0xAA, 0xBB], CallWriteAck 104])"
    using t [of 90 100] by (simp add: S_def WA_def Let_def)
  have r1: "readChunk RR WA H (S 90 0) =
      (None, (S 90 0)\<lparr>readcsmap := [3 \<mapsto> cs], bufr := [9], ackn := 104\<rparr>,
       [CallReadRegister, CallHandler 5 1 8 [0xAA, 0xBB]])"
    using t [of 90 0] by (simp add: S_def WA_def Let_def)
  have r2: "readChunk RR WA H (S 80 100) =
      (None, (S 80 100)\<lparr>readcsmap := [3 \<mapsto> cs], bufr := [9], ackn := 94\<rparr>,
       [CallReadRegister, CallHandler 5 1 8 [0xAA, 0xBB]])"
    using t [of 80 100] by (simp add: S_def WA_def Let_def)
  show ?thesis
    unfolding Let_def RR_def [symmetric] WA_def [symmetric] H_def [symmetric] inp_def [symmetric]
    using r0 r1 r2 by (simp add: S_def)
qed

text \<open>
  C4. Extended-timestamp round trip, with the condition on the chunk stream id that the
  code needs. The two writers put \<open>byte(csid) & 0x3f\<close> into the one byte of their basic
  header, so a header carries \<open>c = csid AND 0x3f\<close>, which is \<open>csid\<close> itself for every
  id below 64.

  For every timestamp, every chunk stream id and a buffer of at least
  \<open>chunkHeaderLength\<close> bytes: \<open>fillChunk0Header\<close> writes the bytes \<open>hdr0\<close> and
  \<open>fillChunk3Header\<close> the bytes \<open>hdr3\<close> of the chunk format at the start of the buffer
  and return their lengths. When \<open>timestamp \<ge> 0xffffff\<close> the 24-bit field of \<open>hdr0\<close>
  is \<open>0xffffff\<close> and both headers end in the 4 bytes of the timestamp, big-endian
  (lengths 16 and 5); when \<open>timestamp < 0xffffff\<close> the field is the timestamp and
  nothing is appended (lengths 12 and 1).

  When \<open>c\<close> is at least 2 (so for every id from 2 to 63): read back, the type-0 header
  gives chunk stream \<open>c\<close> a \<open>timenow\<close> that is the timestamp, and the type-3 header
  leaves the \<open>timenow\<close> of a chunk stream that continues this message at the timestamp.
  And \<open>readChunk\<close> on the type-0 header followed by the (one-chunk) payload calls the
  handler of the message type with exactly this timestamp, stream id, type id and
  payload. This holds for all timestamps, so for \<open>0xFFFFFE\<close>, \<open>0xFFFFFF\<close>,
  \<open>0x01000000\<close> and \<open>0xFFFFFFFF\<close>.

  When \<open>c\<close> is 0 or 1 (ids 0, 1, 64, 65, 128, ...) the reader takes the byte for the
  start of a two-byte or three-byte basic header; nothing is stated of these ids here.
\<close>

theorem extended_timestamp_roundtrip:
  assumes "chunkHeaderLength \<le> length b"
  shows "let c = csid AND 0x3f;
        hdr0 = hdr0_bytes csid timestamp tid sid len; hdr3 = hdr3_bytes csid timestamp in
      (\<exists>tail0. fillChunk0Header b csid timestamp tid sid len = Some (length hdr0, hdr0 @ tail0))
    \<and> (\<exists>tail3. fillChunk3Header b csid timestamp = Some (length hdr3, hdr3 @ tail3))
    \<and> (timestamp \<ge> 0xffffff \<longrightarrow>
          length hdr0 = 16 \<and> subslice 1 4 hdr0 = [0xff, 0xff, 0xff]
        \<and> U32BE (subslice 12 16 hdr0) = timestamp
        \<and> length hdr3 = 5 \<and> U32BE (subslice 1 5 hdr3) = timestamp)
    \<and> (timestamp < 0xffffff \<longrightarrow>
          length hdr0 = 12 \<and> U24BE (subslice 1 4 hdr0) = timestamp \<and> length hdr3 = 1)
    \<and> (unat csid < 64 \<longrightarrow> c = csid)
    \<and> (2 \<le> unat c \<longrightarrow> msgdataleft cs0 = 0 \<longrightarrow>
          readBasicHeader (hdr0 @ rest0) = (Inr (0, c, 1), tl hdr0 @ rest0)
        \<and> (\<exists>cs'. readMsgHeader 0 1 cs0 (tl hdr0 @ rest0) = (Inr (int (length hdr0)), cs', rest0)
              \<and> timenow cs' = timestamp \<and> hastimeext cs' = (timestamp \<ge> 0xffffff)
              \<and> msghdrtype cs' = 0))
    \<and> (2 \<le> unat c \<longrightarrow> msghdrtype cs3 = 0 \<longrightarrow>
        hastimeext cs3 = (timestamp \<ge> 0xffffff) \<longrightarrow> timenow cs3 = timestamp \<longrightarrow>
          readBasicHeader (hdr3 @ rest3) = (Inr (3, c, 1), tl hdr3 @ rest3)
        \<and> (\<exists>cs'. readMsgHeader 3 1 cs3 (tl hdr3 @ rest3) = (Inr (int (length hdr3)), cs', rest3)
              \<and> timenow cs' = timestamp \<and> hastimeext cs' = hastimeext cs3
              \<and> msghdrtype cs' = 0))
    \<and> (2 \<le> unat c \<longrightarrow>
        msgdataleft (case readcsmap self c of None \<Rightarrow> zero_chunkStream | Some cs \<Rightarrow> cs) = 0 \<longrightarrow>
        bufr self = hdr0 @ payload @ rest \<longrightarrow>
        0 \<le> len \<longrightarrow> len < 2 ^ 24 \<longrightarrow> int (length payload) = len \<longrightarrow>
        len \<le> readMaxChunkSize self \<longrightarrow>
          (\<forall>ts' sid' tid' d.
             CallHandler ts' sid' tid' d
               \<in> set (snd (snd (readChunk ReadRegister writeRtmpMsgAck hands self))) \<longleftrightarrow>
             hands tid \<noteq> None \<and> ts' = timestamp \<and> sid' = sid \<and> tid' = tid \<and> d = payload))"
proof -
  define c where "c = csid AND 0x3f"
  define hdr0 where "hdr0 = hdr0_bytes csid timestamp tid sid len"
  define hdr3 where "hdr3 = hdr3_bytes csid timestamp"
  have h0: "hdr0_bytes c timestamp tid sid len = hdr0"
    unfolding c_def hdr0_def by (rule hdr0_bytes_mask)
  have h3: "hdr3_bytes c timestamp = hdr3"
    unfolding c_def hdr3_def by (rule hdr3_bytes_mask)
  have c64: "unat c < 64"
    unfolding c_def by (rule unat_mask6_less)
  have b16: "16 \<le> length b"
    using assms(1) by (simp add: chunkHeaderLength_def)
  have f0: "\<exists>tail0. fillChunk0Header b csid timestamp tid sid len = Some (length hdr0, hdr0 @ tail0)"
    unfolding hdr0_def by (rule fill0_bytes [OF b16])
  have f3: "\<exists>tail3. fillChunk3Header b csid timestamp = Some (length hdr3, hdr3 @ tail3)"
    unfolding hdr3_def by (rule fill3_bytes [OF b16])
  have ext: "timestamp \<ge> 0xffffff \<longrightarrow>
          length hdr0 = 16 \<and> subslice 1 4 hdr0 = [0xff, 0xff, 0xff]
        \<and> U32BE (subslice 12 16 hdr0) = timestamp
        \<and> length hdr3 = 5 \<and> U32BE (subslice 1 5 hdr3) = timestamp"
  proof
    assume ge: "timestamp \<ge> 0xffffff"
    have "subslice 12 16 hdr0 = [ucast (drop_bit 24 timestamp), ucast (drop_bit 16 timestamp),
        ucast (drop_bit 8 timestamp), ucast timestamp]"
      "subslice 1 5 hdr3 = [ucast (drop_bit 24 timestamp), ucast (drop_bit 16 timestamp),
        ucast (drop_bit 8 timestamp), ucast timestamp]"
      "subslice 1 4 hdr0 = [0xff, 0xff, 0xff]"
      unfolding hdr0_def hdr3_def hdr0_ext [OF ge] hdr3_ext [OF ge]
      by (simp_all add: subslice_def)
    then show "length hdr0 = 16 \<and> subslice 1 4 hdr0 = [0xff, 0xff, 0xff]
        \<and> U32BE (subslice 12 16 hdr0) = timestamp
        \<and> length hdr3 = 5 \<and> U32BE (subslice 1 5 hdr3) = timestamp"
      using ge by (simp only: U32BE_bytes hdr0_def hdr3_def hdr0_length hdr3_length) simp
  qed
  have plain: "timestamp < 0xffffff \<longrightarrow>
          length hdr0 = 12 \<and> U24BE (subslice 1 4 hdr0) = timestamp \<and> length hdr3 = 1"
  proof
    assume lt: "timestamp < 0xffffff"
    then have nl: "\<not> timestamp \<ge> 0xffffff" by (simp add: not_le)
    have "subslice 1 4 hdr0 = [ucast (drop_bit 16 timestamp), ucast (drop_bit 8 timestamp), ucast timestamp]"
      unfolding hdr0_def hdr0_plain [OF lt]
      by (simp add: subslice_def)
    then show "length hdr0 = 12 \<and> U24BE (subslice 1 4 hdr0) = timestamp \<and> length hdr3 = 1"
      using nl by (simp only: U24BE_small [OF lt] hdr0_def hdr3_def hdr0_length hdr3_length) simp
  qed
  have id: "unat csid < 64 \<longrightarrow> c = csid"
    unfolding c_def by (rule impI) (rule mask6_id)
  have d0: "2 \<le> unat c \<longrightarrow> msgdataleft cs0 = 0 \<longrightarrow>
          readBasicHeader (hdr0 @ rest0) = (Inr (0, c, 1), tl hdr0 @ rest0)
        \<and> (\<exists>cs'. readMsgHeader 0 1 cs0 (tl hdr0 @ rest0) = (Inr (int (length hdr0)), cs', rest0)
              \<and> timenow cs' = timestamp \<and> hastimeext cs' = (timestamp \<ge> 0xffffff)
              \<and> msghdrtype cs' = 0)"
  proof (intro impI)
    assume c2: "2 \<le> unat c" and z: "msgdataleft cs0 = 0"
    from decode_hdr0 [OF c2 c64 z, of timestamp tid sid len rest0, unfolded h0]
    show "readBasicHeader (hdr0 @ rest0) = (Inr (0, c, 1), tl hdr0 @ rest0)
        \<and> (\<exists>cs'. readMsgHeader 0 1 cs0 (tl hdr0 @ rest0) = (Inr (int (length hdr0)), cs', rest0)
              \<and> timenow cs' = timestamp \<and> hastimeext cs' = (timestamp \<ge> 0xffffff)
              \<and> msghdrtype cs' = 0)"
      by simp
  qed
  have d3: "2 \<le> unat c \<longrightarrow> msghdrtype cs3 = 0 \<longrightarrow>
        hastimeext cs3 = (timestamp \<ge> 0xffffff) \<longrightarrow> timenow cs3 = timestamp \<longrightarrow>
          readBasicHeader (hdr3 @ rest3) = (Inr (3, c, 1), tl hdr3 @ rest3)
        \<and> (\<exists>cs'. readMsgHeader 3 1 cs3 (tl hdr3 @ rest3) = (Inr (int (length hdr3)), cs', rest3)
              \<and> timenow cs' = timestamp \<and> hastimeext cs' = hastimeext cs3
              \<and> msghdrtype cs' = 0)"
  proof (intro impI)
    assume c2: "2 \<le> unat c"
      and a: "msghdrtype cs3 = 0" "hastimeext cs3 = (timestamp \<ge> 0xffffff)" "timenow cs3 = timestamp"
    from decode_hdr3 [OF c2 c64 a, of rest3, unfolded h3] a
    show "readBasicHeader (hdr3 @ rest3) = (Inr (3, c, 1), tl hdr3 @ rest3)
        \<and> (\<exists>cs'. readMsgHeader 3 1 cs3 (tl hdr3 @ rest3) = (Inr (int (length hdr3)), cs', rest3)
              \<and> timenow cs' = timestamp \<and> hastimeext cs' = hastimeext cs3
              \<and> msghdrtype cs' = 0)"
      by simp
  qed
  have e2e: "2 \<le> unat c \<longrightarrow>
        msgdataleft (case readcsmap self c of None \<Rightarrow> zero_chunkStream | Some cs \<Rightarrow> cs) = 0 \<longrightarrow>
        bufr self = hdr0 @ payload @ rest \<longrightarrow>
        0 \<le> len \<longrightarrow> len < 2 ^ 24 \<longrightarrow> int (length payload) = len \<longrightarrow>
        len \<le> readMaxChunkSize self \<longrightarrow>
          (\<forall>ts' sid' tid' d.
             CallHandler ts' sid' tid' d
               \<in> set (snd (snd (readChunk ReadRegister writeRtmpMsgAck hands self))) \<longleftrightarrow>
             hands tid \<noteq> None \<and> ts' = timestamp \<and> sid' = sid \<and> tid' = tid \<and> d = payload)"
  proof (intro impI)
    assume c2: "2 \<le> unat c"
      and idle: "msgdataleft (case readcsmap self c of None \<Rightarrow> zero_chunkStream | Some cs \<Rightarrow> cs) = 0"
      and inp: "bufr self = hdr0 @ payload @ rest"
      and len: "0 \<le> len" "len < 2 ^ 24" "int (length payload) = len" "len \<le> readMaxChunkSize self"
    from decodeChunk_single [OF c2 c64 idle inp [folded h0] len]
    obtain cs self1 where
      d: "decodeChunk self =
        (Inr (c, int (length (hdr0_bytes c timestamp tid sid len)) + len, cs), self1)"
      and c: "timenow cs = timestamp" "msgsid cs = sid" "msgtypeid cs = tid"
        "msgdata cs = payload" "msgdataleft cs = 0"
      by blast
    obtain err self' calls where
      r: "readChunk ReadRegister writeRtmpMsgAck hands self = (err, self', calls)"
      by (cases "readChunk ReadRegister writeRtmpMsgAck hands self")
    from readChunk_calls [OF d r] c
    show "\<forall>ts' sid' tid' d.
             CallHandler ts' sid' tid' d
               \<in> set (snd (snd (readChunk ReadRegister writeRtmpMsgAck hands self))) \<longleftrightarrow>
             hands tid \<noteq> None \<and> ts' = timestamp \<and> sid' = sid \<and> tid' = tid \<and> d = payload"
      unfolding r by simp
  qed
  show ?thesis
    unfolding Let_def hdr0_def [symmetric] hdr3_def [symmetric] c_def [symmetric]
    by (intro conjI f0 f3 ext plain id d0 d3 e2e)
qed

theorem extended_timestamp_roundtrip_witness:
  "(let RR = (\<lambda>s :: Session. s);
        WA = (\<lambda>v (s :: Session). (None, s));
        H = (\<lambda>t. Some (\<lambda>(s :: Session) ts sid tid d. (None, s)));
        b = replicate chunkHeaderLength 0;
        run = (\<lambda>hdr. snd (snd (readChunk RR WA H (NewSesion (hdr @ [0xAA, 0xBB]) ()))))
    in fillChunk0Header b 3 0xFFFFFE 8 1 2 =
         Some (12, [3, 0xFF, 0xFF, 0xFE, 0, 0, 2, 8, 1, 0, 0, 0, 0, 0, 0, 0])
     \<and> CallHandler 0xFFFFFE 1 8 [0xAA, 0xBB]
         \<in> set (run [3, 0xFF, 0xFF, 0xFE, 0, 0, 2, 8, 1, 0, 0, 0])
     \<and> fillChunk0Header b 3 0xFFFFFF 8 1 2 =
         Some (16, [3, 0xFF, 0xFF, 0xFF, 0, 0, 2, 8, 1, 0, 0, 0, 0, 0xFF, 0xFF, 0xFF])
     \<and> CallHandler 0xFFFFFF 1 8 [0xAA, 0xBB]
         \<in> set (run [3, 0xFF, 0xFF, 0xFF, 0, 0, 2, 8, 1, 0, 0, 0, 0, 0xFF, 0xFF, 0xFF])
     \<and> fillChunk0Header b 3 0x01000000 8 1 2 =
         Some (16, [3, 0xFF, 0xFF, 0xFF, 0, 0, 2, 8, 1, 0, 0, 0, 1, 0, 0, 0])
     \<and> CallHandler 0x01000000 1 8 [0xAA, 0xBB]
         \<in> set (run [3, 0xFF, 0xFF, 0xFF, 0, 0, 2, 8, 1, 0, 0, 0, 1, 0, 0, 0])
     \<and> fillChunk0Header b 3 0xFFFFFFFF 8 1 2 =
         Some (16, [3, 0xFF, 0xFF, 0xFF, 0, 0, 2, 8, 1, 0, 0, 0, 0xFF, 0xFF, 0xFF, 0xFF])
     \<and> CallHandler 0xFFFFFFFF 1 8 [0xAA, 0xBB]
         \<in> set (run [3, 0xFF, 0xFF, 0xFF, 0, 0, 2, 8, 1, 0, 0, 0, 0xFF, 0xFF, 0xFF, 0xFF])
     \<and> fillChunk3Header b 3 0x01000000 =
         Some (5, [0xC3, 1, 0, 0, 0, 0, 0, 0, 0, 0, 0, 0, 0, 0, 0, 0])
     \<and> fillChunk3Header b 3 0xFFFFFE =
         Some (1, [0xC3, 0, 0, 0, 0, 0, 0, 0, 0, 0, 0, 0, 0, 0, 0, 0]))"
proof -
  define RR where "RR = (\<lambda>s :: Session. s)"
  define WA where "WA = (\<lambda>(v :: u32) (s :: Session). (None :: string option, s))"
  define H :: "unit RtmpMsgHandle" where "H = (\<lambda>t. Some (\<lambda>(s :: Session) ts sid tid d. (None, s)))"
  define b :: bytes where "b = replicate chunkHeaderLength 0"
  define run where "run = (\<lambda>hdr. snd (snd (readChunk RR WA H (NewSesion (hdr @ [0xAA, 0xBB]) ()))))"
  have b16: "b = [0, 0, 0, 0, 0, 0, 0, 0, 0, 0, 0, 0, 0, 0, 0, 0]"
    by (simp add: b_def chunkHeaderLength_def numeral_eq_Suc)
  have lb: "chunkHeaderLength \<le> length b"
    by (simp add: b_def chunkHeaderLength_def)
  have m3: "(3 AND 0x3f :: u32) = 3"
    by simp
  have c: "2 \<le> unat (3 :: u32)"
    by simp
  have W: "CallHandler ts 1 8 [0xAA, 0xBB] \<in> set (run (take n L))"
    if f: "fillChunk0Header b 3 ts 8 1 2 = Some (n, L)" for ts n L
  proof -
    define self where "self = NewSesion (take n L @ [0xAA, 0xBB]) ()"
    define hdr0 where "hdr0 = hdr0_bytes 3 ts 8 1 2"
    note t = extended_timestamp_roundtrip [OF lb, where csid = 3 and timestamp = ts and tid = 8
        and sid = 1 and len = 2 and self = self and payload = "[0xAA, 0xBB]" and rest = "[]"
        and ReadRegister = RR and writeRtmpMsgAck = WA and hands = H,
        unfolded Let_def m3, folded hdr0_def]
    from t [THEN conjunct1] obtain tail0 where
      f': "fillChunk0Header b 3 ts 8 1 2 = Some (length hdr0, hdr0 @ tail0)"
      by (rule exE)
    note e = t [THEN conjunct2, THEN conjunct2, THEN conjunct2, THEN conjunct2,
        THEN conjunct2, THEN conjunct2, THEN conjunct2]
    from f f' have "n = length hdr0" "L = hdr0 @ tail0"
      by simp_all
    then have h: "take n L = hdr0"
      by simp
    have i: "msgdataleft (case readcsmap self 3 of None \<Rightarrow> zero_chunkStream | Some c \<Rightarrow> c) = 0"
      by (simp add: self_def NewSesion_def zero_chunkStream_def)
    have bu: "bufr self = hdr0 @ [0xAA, 0xBB] @ []"
      by (simp add: self_def NewSesion_def h)
    have m: "2 \<le> readMaxChunkSize self"
      by (simp add: self_def NewSesion_def)
    have hh: "H 8 \<noteq> None"
      by (simp add: H_def)
    from e [rule_format, OF c i bu _ _ _ m, of "ts" 1 8 "[0xAA, 0xBB]"] hh
    have "CallHandler ts 1 8 [0xAA, 0xBB] \<in> set (snd (snd (readChunk RR WA H self)))"
      by simp
    then show ?thesis
      by (simp add: run_def self_def)
  qed
  have f1: "fillChunk0Header b 3 0xFFFFFE 8 1 2 =
         Some (12, [3, 0xFF, 0xFF, 0xFE, 0, 0, 2, 8, 1, 0, 0, 0, 0, 0, 0, 0])"
    and f2: "fillChunk0Header b 3 0xFFFFFF 8 1 2 =
         Some (16, [3, 0xFF, 0xFF, 0xFF, 0, 0, 2, 8, 1, 0, 0, 0, 0, 0xFF, 0xFF, 0xFF])"
    and f3: "fillChunk0Header b 3 0x01000000 8 1 2 =
         Some (16, [3, 0xFF, 0xFF, 0xFF, 0, 0, 2, 8, 1, 0, 0, 0, 1, 0, 0, 0])"
    and f4: "fillChunk0Header b 3 0xFFFFFFFF 8 1 2 =
         Some (16, [3, 0xFF, 0xFF, 0xFF, 0, 0, 2, 8, 1, 0, 0, 0, 0xFF, 0xFF, 0xFF, 0xFF])"
    unfolding b16
    by (simp_all add: fillChunk0Header_def put8_def PutU24BE_def PutU32LE_def PutU32BE_def Let_def
        list_update_Cons_numeral)
  have g1: "fillChunk3Header b 3 0x01000000 =
         Some (5, [0xC3, 1, 0, 0, 0, 0, 0, 0, 0, 0, 0, 0, 0, 0, 0, 0])"
    and g2: "fillChunk3Header b 3 0xFFFFFE =
         Some (1, [0xC3, 0, 0, 0, 0, 0, 0, 0, 0, 0, 0, 0, 0, 0, 0, 0])"
    unfolding b16
    by (simp_all add: fillChunk3Header_def put8_def PutU32BE_def Let_def list_update_Cons_numeral)
  show ?thesis
    unfolding Let_def RR_def [symmetric] WA_def [symmetric] H_def [symmetric] b_def [symmetric]
      run_def [symmetric]
    using f1 f2 f3 f4 g1 g2 W [OF f1] W [OF f2] W [OF f3] W [OF f4]
    by (simp add: run_def)
qed

text \<open>
  C4 as the specification states it, for every chunk stream id, fails at the id 64 and the
  timestamp \<open>0xFFFFFF\<close>. \<open>fillChunk0Header\<close> writes the basic header byte 0, and
  \<open>readChunk\<close> on the header and the two bytes of the payload takes that byte for the
  start of a two-byte basic header: it reads the header of a message of 520 bytes and
  of timestamp \<open>0xFFFF00\<close> on chunk stream 319 and ends in \<open>io.ErrUnexpectedEOF\<close>.
  No handler is called, and no chunk stream holds the timestamp.
\<close>

theorem extended_timestamp_lost_at_csid_64:
  "fillChunk0Header (replicate chunkHeaderLength 0) 64 0xFFFFFF 8 1 2 =
     Some (16, [0, 0xFF, 0xFF, 0xFF, 0, 0, 2, 8, 1, 0, 0, 0, 0, 0xFF, 0xFF, 0xFF])
   \<and> readChunk (\<lambda>s. s) (\<lambda>v s. (None, s)) (\<lambda>t. Some (\<lambda>s ts sid tid d. (None, s)))
       (NewSesion ([0, 0xFF, 0xFF, 0xFF, 0, 0, 2, 8, 1, 0, 0, 0, 0, 0xFF, 0xFF, 0xFF]
          @ [0xAA, 0xBB]) ()) =
     (Some ErrUnexpectedEOF,
      (NewSesion [] ())\<lparr>readcsmap :=
         [319 \<mapsto> \<lparr>timenow = 0xFFFF00, timedelta = 0, hastimeext = False, msgsid = 0,
            msgtypeid = 1, msgdatalen = 520, msgdataleft = 520, msghdrtype = 0,
            msgdata = [0xFF, 0xFF, 0xFF, 0xAA, 0xBB] @ replicate 515 0\<rparr>]\<rparr>,
      [])"
proof -
  define s0 :: Session where
    "s0 = NewSesion ([0, 0xFF, 0xFF, 0xFF, 0, 0, 2, 8, 1, 0, 0, 0, 0, 0xFF, 0xFF, 0xFF] @ [0xAA, 0xBB]) ()"
  define cs :: chunkStream where
    "cs = \<lparr>timenow = 0xFFFF00, timedelta = 0, hastimeext = False, msgsid = 0,
            msgtypeid = 1, msgdatalen = 520, msgdataleft = 520, msghdrtype = 0,
            msgdata = [0xFF, 0xFF, 0xFF, 0xAA, 0xBB] @ replicate 515 0\<rparr>"
  have b16: "replicate chunkHeaderLength (0 :: u8) = [0, 0, 0, 0, 0, 0, 0, 0, 0, 0, 0, 0, 0, 0, 0, 0]"
    by (simp add: chunkHeaderLength_def numeral_eq_Suc)
  have f: "fillChunk0Header (replicate chunkHeaderLength 0) 64 0xFFFFFF 8 1 2 =
     Some (16, [0, 0xFF, 0xFF, 0xFF, 0, 0, 2, 8, 1, 0, 0, 0, 0, 0xFF, 0xFF, 0xFF])"
    unfolding b16
    by (simp add: fillChunk0Header_def put8_def PutU24BE_def PutU32LE_def PutU32BE_def Let_def
        list_update_Cons_numeral)
  have bh: "readBasicHeader (bufr s0) =
      (Inr (0, 319, 2), [0xFF, 0xFF, 0, 0, 2, 8, 1, 0, 0, 0, 0, 0xFF, 0xFF, 0xFF, 0xAA, 0xBB])"
    by (simp add: s0_def NewSesion_def readBasicHeader_def ReadFull_def)
  have r5: "replicate 520 (0 :: u8) = replicate 5 0 @ replicate 515 0"
    by (simp add: replicate_add [symmetric])
  have d: "decodeChunk s0 = (Inl ErrUnexpectedEOF, s0\<lparr>readcsmap := [319 \<mapsto> cs], bufr := []\<rparr>)"
    unfolding decodeChunk_def bh
    by (simp add: s0_def NewSesion_def readMsgHeader_0 ReadFull_def readTimeExt_def
        zero_chunkStream_def subslice_def U24BE_def U32LE_def Start_def readPayload_def r5 cs_def)
  have r: "readChunk (\<lambda>s. s) (\<lambda>v s. (None, s)) (\<lambda>t. Some (\<lambda>s ts sid tid d. (None, s))) s0 =
      (Some ErrUnexpectedEOF, s0\<lparr>readcsmap := [319 \<mapsto> cs], bufr := []\<rparr>, [])"
    unfolding readChunk_def d by simp
  show ?thesis
    using f r unfolding s0_def cs_def by (simp add: NewSesion_def)
qed

text \<open>
  C9. For every record \<open>r\<close> and every buffer \<open>b\<close> with \<open>len(b) \<ge> r.Len()\<close>,
  \<open>r.Marshal(b)\<close> does not panic and returns exactly \<open>r.Len()\<close>, which is 7 plus
  \<open>2 + len(nalu)\<close> for each SPS and each PPS; the buffer keeps its length.
\<close>

theorem Marshal_returns_Len:
  assumes "Len r \<le> length b"
  shows "\<exists>b'. Marshal r b = Some (Len r, b') \<and> length b' = length b"
proof -
  define S where "S = sum_list (map (\<lambda>sps. 2 + length sps) (SPS r))"
  define P where "P = sum_list (map (\<lambda>pps. 2 + length pps) (PPS r))"
  have len: "Len r = 7 + S + P"
    by (simp only: Len_sum S_def P_def)
  have lb: "7 + S + P \<le> length b"
    using assms len by simp
  have "0 < length b"
    using lb by linarith
  from put8_ok [OF this] obtain b1 where
    p1: "put8 0 1 b = Some b1" and l1: "length b1 = length b"
    by blast
  have "1 < length b1"
    using lb by (simp add: l1)
  from put8_ok [OF this] obtain b2 where
    p2: "put8 1 (AVCProfileIndication r) b1 = Some b2" and l2: "length b2 = length b"
    unfolding l1 by blast
  have "2 + 3 < length b2"
    using lb by (simp add: l2)
  from PutU32BE_ok [OF this] obtain b3 where
    p3: "PutU32BE 2 (ProfileCompatibility r) b2 = Some b3" and l3: "length b3 = length b"
    unfolding l2 by blast
  have "6 < length b3"
    using lb by (simp add: l3)
  from put8_ok [OF this] obtain b4 where
    p4: "put8 6 (AVCLevelIndication r) b3 = Some b4" and l4: "length b4 = length b"
    unfolding l3 by blast
  have "6 + sum_list (map (\<lambda>x. 2 + length x) (SPS r)) \<le> length b4"
    using lb by (simp add: l4 S_def)
  from marshalNalus_ok [OF this] obtain b5 where
    m5: "marshalNalus (SPS r) 6 b4 = Some (6 + S, b5)" and l5: "length b5 = length b"
    unfolding S_def l4 by blast
  have "6 + S < length b5"
    using lb by (simp add: l5)
  from put8_ok [OF this] obtain b6 where
    p6: "put8 (6 + S) (word_of_nat (length (PPS r))) b5 = Some b6" and l6: "length b6 = length b"
    unfolding l5 by blast
  have "6 + S + 1 + sum_list (map (\<lambda>x. 2 + length x) (PPS r)) \<le> length b6"
    using lb by (simp add: l6 P_def)
  from marshalNalus_ok [OF this] obtain b7 where
    m7: "marshalNalus (PPS r) (6 + S + 1) b6 = Some (6 + S + 1 + P, b7)" and l7: "length b7 = length b"
    unfolding P_def l6 by blast
  have "Marshal r b = Some (6 + S + 1 + P, b7)"
    by (simp only: Marshal_unfold p1 p2 p3 p4 m5 p6 m7 Option.bind.simps prod.case)
  moreover have "6 + S + 1 + P = Len r"
    using len by simp
  ultimately show ?thesis
    using l7 by (simp only:) blast
qed

theorem Marshal_returns_Len_witness:
  "(let r = \<lparr>AVCProfileIndication = 1, ProfileCompatibility = 2, AVCLevelIndication = 3,
             LengthSizeMinusOne = 3, VPS = [], SPS = [[9, 9, 9]], PPS = [[8, 8]]\<rparr>
    in Len r = 16 \<and> fst (the (Marshal r (replicate 16 0))) = 16
     \<and> fst (the (Marshal r (replicate 20 0))) = 16)"
proof -
  define r where "r = \<lparr>AVCProfileIndication = 1, ProfileCompatibility = 2, AVCLevelIndication = 3,
             LengthSizeMinusOne = 3, VPS = [], SPS = [[9 :: u8, 9, 9]], PPS = [[8 :: u8, 8]]\<rparr>"
  have l: "Len r = 16"
    by (simp add: r_def Len_def)
  have "Len r \<le> length (replicate 16 (0 :: u8))" "Len r \<le> length (replicate 20 (0 :: u8))"
    by (simp_all add: l)
  from Marshal_returns_Len [OF this(1)] Marshal_returns_Len [OF this(2)] l
  show ?thesis
    unfolding Let_def r_def [symmetric] by auto
qed


text \<open>
  C8. Accept-loop backoff. The claim is that within a run of consecutive temporary
  accept errors the sleep starts at 5 ms and doubles up to 1 s. The loop as written
  declares \<open>tempDelay\<close> inside its body, so at every temporary error the delay is 0
  before the test \<open>tempDelay == 0\<close>, and the loop sleeps 5 ms each time: on three
  temporary errors in a row it sleeps 5, 5 and 5 ms where the claim gives 5, 10 and
  20 ms, and no sleep of the loop is ever anything but 5 ms.
\<close>

theorem accept_backoff_never_doubles:
  "acceptLoop [TemporaryError, TemporaryError, TemporaryError] = [5000000, 5000000, 5000000]
   \<and> backoff_spec 0 [TemporaryError, TemporaryError, TemporaryError] = [5000000, 10000000, 20000000]
   \<and> set (acceptLoop es) \<subseteq> {5 * Millisecond}"
proof -
  have "set (acceptLoop es) \<subseteq> {5 * Millisecond}"
    by (induction es) (simp_all add: Let_def Millisecond_def Second_def split: acceptResult.split)
  then show ?thesis
    by (simp add: Let_def Millisecond_def Second_def)
qed

end
